theory Spec2Isabelle
  imports Complex_Main "HOL-Library.Sublist"
begin

section \<open>Exceptions and strings\<close>

text \<open>
  Python exceptions of class \<^verbatim>\<open>Exception\<close>, which is what every \<^verbatim>\<open>except Exception\<close>
  handler of the package catches. \<open>RuntimeError\<close>, \<open>TimeoutError\<close> and \<open>ImportError\<close>
  are the ones the package raises itself; \<open>AttributeError\<close> is what Python raises
  when an attribute that the constructor never bound is read; \<open>ValueError\<close> is what
  \<^verbatim>\<open>time.sleep\<close> raises for a negative duration; \<open>OtherError\<close> stands for whatever a
  collaborator (pexpect, the tmux subprocess, the screen of a closed session, a
  subscriber callback) raises.

  Modelling rule for the collaborators that live outside the package (clock, pexpect,
  tmux, the pty driver, pyte): a call can raise in the model where the source handles
  an exception from it (a \<^verbatim>\<open>try\<close> around the call), and at the two unguarded calls
  whose exception would reach the caller of a method said not to raise: the pty
  driver's \<^verbatim>\<open>cleanup()\<close> in \<^verbatim>\<open>PtySession.cleanup\<close>, and \<^verbatim>\<open>get_content\<close> in
  \<^verbatim>\<open>verify_text_appears\<close> (\<open>verify_text_appears_raising\<close> below). Everywhere else the
  call is taken at its declared interface and returns.
\<close>

datatype exn =
    RuntimeError string
  | TimeoutError string
  | ImportError string
  | AttributeError string
  | ValueError string
  | OtherError string

text \<open>Python's \<^verbatim>\<open>text in content\<close> on strings: \<open>text\<close> occurs contiguously in \<open>content\<close>.\<close>

fun str_in :: "string \<Rightarrow> string \<Rightarrow> bool" where
  "str_in t [] = (t = [])"
| "str_in t (c # cs) = (prefix t (c # cs) \<or> str_in t cs)"

text \<open>
  Actions on a world \<open>'w\<close> that return a value or raise, with the two ways the source
  combines them: one statement after another (an exception skips the rest), and
  \<^verbatim>\<open>try: ... except Exception: pass\<close>.
\<close>

type_synonym ('a, 'w) act = "'w \<Rightarrow> (exn + 'a) \<times> 'w"

definition return_act :: "'a \<Rightarrow> ('a, 'w) act" where
  "return_act a w = (Inr a, w)"

definition bind_act :: "('a, 'w) act \<Rightarrow> ('a \<Rightarrow> ('b, 'w) act) \<Rightarrow> ('b, 'w) act" where
  "bind_act m f w = (case m w of (Inl e, w') \<Rightarrow> (Inl e, w') | (Inr a, w') \<Rightarrow> f a w')"

definition try_pass :: "(unit, 'w) act \<Rightarrow> (unit, 'w) act" where
  "try_pass m w = (case m w of (Inl e, w') \<Rightarrow> (Inr (), w') | (Inr a, w') \<Rightarrow> (Inr (), w'))"

text \<open>\<^verbatim>\<open>time.sleep(d)\<close> raises \<^verbatim>\<open>ValueError\<close> for a negative \<open>d\<close>, before sleeping.\<close>

definition sleep_error :: "real \<Rightarrow> exn option" where
  "sleep_error d = (if d < 0 then Some (ValueError ''sleep length must be non-negative'') else None)"

definition py_sleep :: "(real \<Rightarrow> 'w \<Rightarrow> 'w) \<Rightarrow> real \<Rightarrow> (unit, 'w) act" where
  "py_sleep slp d w = (case sleep_error d of Some e \<Rightarrow> (Inl e, w) | None \<Rightarrow> (Inr (), slp d w))"

section \<open>BaseSession: the polling assertions\<close>

text \<open>
  \<^verbatim>\<open>BaseSession.__init__\<close> binds \<^verbatim>\<open>self.timeout\<close> and \<^verbatim>\<open>self._is_cleaned_up = False\<close>.
\<close>

record base_session =
  timeout :: real
  is_cleaned_up :: bool

text \<open>
  What \<^verbatim>\<open>verify_text_appears\<close> and \<^verbatim>\<open>wait_for_text\<close> call, over an abstract world \<open>'w\<close>
  (the process, its screen and the clock): \<^verbatim>\<open>time.time()\<close>, \<^verbatim>\<open>time.sleep(d)\<close>, the abstract
  method \<^verbatim>\<open>self.get_content(include_history) -> str\<close> that a subclass implements, and
  the formatting of the \<^verbatim>\<open>timeout\<close> argument inside the f-string of the error message.
  Reading the clock and reading the content both return a new world: time passes,
  output arrives. Times are reals: only the comparison \<^verbatim>\<open>time.time() - start < timeout\<close>
  is made on them.
\<close>

record 'w collab =
  time_time :: "'w \<Rightarrow> real \<times> 'w"
  time_sleep :: "real \<Rightarrow> 'w \<Rightarrow> 'w"
  get_content :: "bool \<Rightarrow> 'w \<Rightarrow> string \<times> 'w"
  str_of_timeout :: "real option \<Rightarrow> string"

text \<open>
  The \<^verbatim>\<open>while time.time() - start < timeout\<close> loop of \<^verbatim>\<open>verify_text_appears\<close>
  (session.py, lines 111-117). \<open>None\<close> is the loop that never ends. The sleep is
  \<^verbatim>\<open>time.sleep(0.1)\<close>, a non-negative duration.
\<close>

partial_function (option) verify_loop ::
  "'w collab \<Rightarrow> string \<Rightarrow> bool \<Rightarrow> real \<Rightarrow> real \<Rightarrow> 'w \<Rightarrow> (bool \<times> 'w) option"
where
  "verify_loop env text include_history start tmo w =
     (case time_time env w of (t, w1) \<Rightarrow>
        if t - start < tmo then
          (case get_content env include_history w1 of (content, w2) \<Rightarrow>
             if str_in text content then Some (True, w2)
             else verify_loop env text include_history start tmo (time_sleep env (1 / 10) w2))
        else Some (False, w1))"

text \<open>
  \<^verbatim>\<open>timeout = timeout if timeout is not None else self.timeout\<close>: the session's default
  is used only for \<^verbatim>\<open>None\<close>; a timeout of \<open>0\<close> is kept.
\<close>

definition effective_timeout :: "'a base_session_scheme \<Rightarrow> real option \<Rightarrow> real" where
  "effective_timeout self tmo_arg = (case tmo_arg of Some t \<Rightarrow> t | None \<Rightarrow> timeout self)"

definition verify_text_appears ::
  "'w collab \<Rightarrow> 'a base_session_scheme \<Rightarrow> string \<Rightarrow> real option \<Rightarrow> bool \<Rightarrow> 'w
     \<Rightarrow> (bool \<times> 'w) option"
where
  "verify_text_appears env self text tmo_arg include_history w =
     (let tmo = effective_timeout self tmo_arg in
      case time_time env w of (start, w0) \<Rightarrow>
        verify_loop env text include_history start tmo w0)"



text \<open>
  \<^verbatim>\<open>verify_text_appears\<close> has no exception handler (session.py, lines 108-117), so an
  exception raised by \<^verbatim>\<open>self.get_content\<close> leaves the method. The same method once
  more, with the content read as an action \<open>rd\<close> that returns a string or raises;
  \<open>returning g\<close> is the read that always returns what \<open>g\<close> returns.
\<close>

definition returning :: "(bool \<Rightarrow> 'w \<Rightarrow> string \<times> 'w) \<Rightarrow> bool \<Rightarrow> (string, 'w) act" where
  "returning g h w = (case g h w of (content, w') \<Rightarrow> (Inr content, w'))"

partial_function (option) verify_loop_raising ::
  "'w collab \<Rightarrow> (bool \<Rightarrow> (string, 'w) act) \<Rightarrow> string \<Rightarrow> bool \<Rightarrow> real \<Rightarrow> real \<Rightarrow> 'w
     \<Rightarrow> ((exn + bool) \<times> 'w) option"
where
  "verify_loop_raising env rd text include_history start tmo w =
     (case time_time env w of (t, w1) \<Rightarrow>
        if t - start < tmo then
          (case rd include_history w1 of
             (Inl e, w2) \<Rightarrow> Some (Inl e, w2)
           | (Inr content, w2) \<Rightarrow>
               if str_in text content then Some (Inr True, w2)
               else verify_loop_raising env rd text include_history start tmo
                      (time_sleep env (1 / 10) w2))
        else Some (Inr False, w1))"

definition verify_text_appears_raising ::
  "'w collab \<Rightarrow> (bool \<Rightarrow> (string, 'w) act) \<Rightarrow> 'a base_session_scheme \<Rightarrow> string
     \<Rightarrow> real option \<Rightarrow> bool \<Rightarrow> 'w \<Rightarrow> ((exn + bool) \<times> 'w) option"
where
  "verify_text_appears_raising env rd self text tmo_arg include_history w =
     (let tmo = effective_timeout self tmo_arg in
      case time_time env w of (start, w0) \<Rightarrow>
        verify_loop_raising env rd text include_history start tmo w0)"

text \<open>
  The assumptions on the clock under which the polling assertions are studied.
  \<open>clock env w\<close> is what \<^verbatim>\<open>time.time()\<close> returns in world \<open>w\<close>. The clock does not go
  back across a clock read or a content read, and \<^verbatim>\<open>time.sleep(d)\<close> lets at least \<open>d\<close>
  seconds pass.
\<close>

definition clock :: "'w collab \<Rightarrow> 'w \<Rightarrow> real" where
  "clock env w = fst (time_time env w)"

definition clock_monotone :: "'w collab \<Rightarrow> bool" where
  "clock_monotone env \<longleftrightarrow> (\<forall>w. clock env w \<le> clock env (snd (time_time env w)))"

definition collab_ok :: "'w collab \<Rightarrow> bool" where
  "collab_ok env \<longleftrightarrow>
     clock_monotone env
   \<and> (\<forall>h w. clock env w \<le> clock env (snd (get_content env h w)))
   \<and> (\<forall>d w. clock env w + d \<le> clock env (time_sleep env d w))"

text \<open>
  The specification's side of \<^verbatim>\<open>verify_text_appears\<close>, in its own words: the text
  becomes a substring of the content returned by \<^verbatim>\<open>get_content\<close> within the timeout,
  the content being polled every 100 ms. \<open>poll_world k\<close> is the world at the \<open>k\<close>-th
  poll: between two polls lie one clock read, one content read and one sleep of
  \<open>1/10\<close> s. The text appears within \<open>tmo\<close> when some poll is made less than \<open>tmo\<close>
  seconds after \<open>start\<close> and its content contains the text.
\<close>

definition poll_step :: "'w collab \<Rightarrow> bool \<Rightarrow> 'w \<Rightarrow> 'w" where
  "poll_step env h w =
     time_sleep env (1 / 10) (snd (get_content env h (snd (time_time env w))))"

definition poll_world :: "'w collab \<Rightarrow> bool \<Rightarrow> 'w \<Rightarrow> nat \<Rightarrow> 'w" where
  "poll_world env h w0 k = (poll_step env h ^^ k) w0"

definition poll_content :: "'w collab \<Rightarrow> bool \<Rightarrow> 'w \<Rightarrow> nat \<Rightarrow> string" where
  "poll_content env h w0 k =
     fst (get_content env h (snd (time_time env (poll_world env h w0 k))))"

definition appears_within ::
  "'w collab \<Rightarrow> bool \<Rightarrow> string \<Rightarrow> real \<Rightarrow> real \<Rightarrow> 'w \<Rightarrow> bool"
where
  "appears_within env h text start tmo w0 \<longleftrightarrow>
     (\<exists>k. clock env (poll_world env h w0 k) - start < tmo
          \<and> str_in text (poll_content env h w0 k))"

text \<open>A scripted world for examples: the world is the time; \<open>hi\<close> is on the screen from 0.15 s on.\<close>

definition script_env :: "real collab" where
  "script_env =
     \<lparr> time_time = (\<lambda>w. (w, w)),
       time_sleep = (\<lambda>d w. w + d),
       get_content = (\<lambda>h w. (if 3 / 20 \<le> w then ''$ echo hi'' else ''$ '', w)),
       str_of_timeout = (\<lambda>t. case t of None \<Rightarrow> ''None'' | Some x \<Rightarrow> ''0.25'') \<rparr>"

definition script_session :: base_session where
  "script_session = \<lparr> timeout = 5, is_cleaned_up = False \<rparr>"

text \<open>
  A second scripted world, in which reading the content takes 0.05 s; \<open>hi\<close> is on
  the screen from 0.25 s on. And a content read that raises.
\<close>

definition slow_env :: "real collab" where
  "slow_env =
     \<lparr> time_time = (\<lambda>w. (w, w)),
       time_sleep = (\<lambda>d w. w + d),
       get_content = (\<lambda>h w. (if 1 / 4 \<le> w then ''$ echo hi'' else ''$ '', w + 1 / 20)),
       str_of_timeout = (\<lambda>t. case t of None \<Rightarrow> ''None'' | Some x \<Rightarrow> ''2'') \<rparr>"

definition failing_read :: "bool \<Rightarrow> (string, real) act" where
  "failing_read h w = (Inl (OtherError ''capture failed''), w)"

section \<open>ScreenBroadcaster\<close>

text \<open>
  The pyte screen the broadcaster reads through the session: the display lines, top
  to bottom, and the cursor.
\<close>

record screen =
  display :: "string list"
  cursor_x :: int
  cursor_y :: int

text \<open>
  The fields of \<^verbatim>\<open>ScreenBroadcaster\<close> (viewer.py, lines 66-72). Subscribers are callbacks
  of a type \<open>'cb\<close> compared by equality, as Python's \<^verbatim>\<open>in\<close> and \<^verbatim>\<open>list.remove\<close> compare
  them. \<open>thread\<close> is \<^verbatim>\<open>self._thread\<close>, the handle of the thread created last. Two more
  fields record the threads themselves, which Python keeps outside the object:
  \<open>spawned\<close> counts the polling threads started so far (a thread's handle is its
  number), and \<open>live\<close> lists the threads that are still inside \<^verbatim>\<open>_broadcast_loop\<close>.
\<close>

record 'cb broadcaster =
  update_interval :: real
  subscribers :: "'cb list"
  running :: bool
  thread :: "nat option"
  last_content :: "string list"
  spawned :: nat
  live :: "nat list"

text \<open>
  \<^verbatim>\<open>ScreenBroadcaster.__init__\<close>: raises \<^verbatim>\<open>ImportError\<close> when Textual could not be
  imported (\<^verbatim>\<open>TEXTUAL_AVAILABLE\<close>), else builds a broadcaster that is not running.
\<close>

definition init_broadcaster :: "real \<Rightarrow> 'cb broadcaster" where
  "init_broadcaster interval =
     \<lparr> update_interval = interval, subscribers = [], running = False, thread = None,
       last_content = [], spawned = 0, live = [] \<rparr>"

definition new_broadcaster :: "bool \<Rightarrow> real \<Rightarrow> exn + 'cb broadcaster" where
  "new_broadcaster textual_available interval =
     (if \<not> textual_available
      then Inl (ImportError
        ''Visualization dependencies not installed. Install with: uv pip install ptytest[viz]'')
      else Inr (init_broadcaster interval))"

definition subscribe :: "'cb \<Rightarrow> 'cb broadcaster \<Rightarrow> 'cb broadcaster" where
  "subscribe callback b = b\<lparr>subscribers := subscribers b @ [callback]\<rparr>"

definition unsubscribe :: "'cb \<Rightarrow> 'cb broadcaster \<Rightarrow> 'cb broadcaster" where
  "unsubscribe callback b =
     (if callback \<in> set (subscribers b)
      then b\<lparr>subscribers := remove1 callback (subscribers b)\<rparr>
      else b)"

text \<open>
  \<^verbatim>\<open>get_screen_state\<close> reads \<^verbatim>\<open>self.session.screen\<close> under the session's screen lock. The
  read is made inside the \<^verbatim>\<open>try\<close> of the polling loop (``session might be closed''), so
  what the session yields is either an exception or the screen.
\<close>

definition get_screen_state :: "exn + screen \<Rightarrow> exn + (string list \<times> int \<times> int)" where
  "get_screen_state scr =
     (case scr of
        Inl e \<Rightarrow> Inl e
      | Inr s \<Rightarrow> Inr (display s, cursor_x s, cursor_y s))"

text \<open>
  \<^verbatim>\<open>start\<close>: a no-op while the running flag is set; otherwise it sets the flag, creates
  a thread and starts it.
\<close>

definition start :: "'cb broadcaster \<Rightarrow> 'cb broadcaster" where
  "start b =
     (if running b then b
      else b\<lparr> running := True, thread := Some (spawned b),
              spawned := Suc (spawned b), live := live b @ [spawned b] \<rparr>)"

text \<open>
  \<^verbatim>\<open>shutdown\<close>: clears the flag, waits at most one second for the thread
  (\<^verbatim>\<open>join(timeout=1.0)\<close>, which changes no field: a thread leaves its loop by its own
  next test of the flag), and clears the subscribers.
\<close>

definition shutdown :: "'cb broadcaster \<Rightarrow> 'cb broadcaster" where
  "shutdown b = b\<lparr> running := False, subscribers := [] \<rparr>"

definition is_running :: "'cb broadcaster \<Rightarrow> bool" where
  "is_running b = running b"

text \<open>
  What one pass of the polling thread does that others can observe: it takes and
  releases \<^verbatim>\<open>self._subscribers_lock\<close>, calls callbacks, and sleeps.
\<close>

datatype 'cb event =
    Acquire
  | Release
  | Invoke 'cb "string list" int int
  | Sleep real

text \<open>The behaviour of the callbacks during one pass: a call returns or raises.\<close>

type_synonym 'cb calls = "'cb \<Rightarrow> string list \<Rightarrow> int \<Rightarrow> int \<Rightarrow> exn option"

text \<open>
  The \<^verbatim>\<open>for callback in self._subscribers\<close> loop (viewer.py, lines 131-136): each call
  sits in its own \<^verbatim>\<open>try\<close>, and the handler is \<^verbatim>\<open>pass\<close>.
\<close>

fun notify :: "'cb calls \<Rightarrow> 'cb list \<Rightarrow> string list \<Rightarrow> int \<Rightarrow> int \<Rightarrow> 'cb event list" where
  "notify call [] lines cx cy = []"
| "notify call (callback # rest) lines cx cy =
     Invoke callback lines cx cy #
       (case call callback lines cx cy of
          Some e \<Rightarrow> notify call rest lines cx cy
        | None \<Rightarrow> notify call rest lines cx cy)"

text \<open>
  The body of \<^verbatim>\<open>while self._running\<close> in \<^verbatim>\<open>_broadcast_loop\<close> (viewer.py, lines 122-141):
  the new broadcaster, the events of the pass, and whether the loop goes on
  (\<open>False\<close> is the \<^verbatim>\<open>break\<close> of the outer handler, reached when the screen read raises
  or when \<^verbatim>\<open>time.sleep\<close> rejects the interval).
\<close>

definition broadcast_loop_body ::
  "'cb calls \<Rightarrow> exn + screen \<Rightarrow> 'cb broadcaster \<Rightarrow> 'cb broadcaster \<times> 'cb event list \<times> bool"
where
  "broadcast_loop_body call scr b =
     (case get_screen_state scr of
        Inl e \<Rightarrow> (b, [], False)
      | Inr (lines, cx, cy) \<Rightarrow>
          (case (if lines \<noteq> last_content b
                 then (b\<lparr>last_content := lines\<rparr>,
                       Acquire # notify call (subscribers b) lines cx cy @ [Release])
                 else (b, []))
           of (b1, evs) \<Rightarrow>
             (case sleep_error (update_interval b1) of
                Some e \<Rightarrow> (b1, evs, False)
              | None \<Rightarrow> (b1, evs @ [Sleep (update_interval b1)], True))))"

text \<open>
  One turn of \<^verbatim>\<open>_broadcast_loop\<close> in thread \<open>tid\<close>: the test of the flag, then the body.
  A thread that has left the loop does nothing more.
\<close>

definition broadcast_loop_pass ::
  "nat \<Rightarrow> 'cb calls \<Rightarrow> exn + screen \<Rightarrow> 'cb broadcaster \<Rightarrow> 'cb broadcaster \<times> 'cb event list"
where
  "broadcast_loop_pass tid call scr b =
     (if tid \<notin> set (live b) then (b, [])
      else if \<not> running b then (b\<lparr>live := removeAll tid (live b)\<rparr>, [])
      else
        (case broadcast_loop_body call scr b of
           (b1, evs, continue) \<Rightarrow>
             (if continue then b1 else b1\<lparr>live := removeAll tid (live b1)\<rparr>, evs)))"

text \<open>
  Histories of a broadcaster: the calls of its public methods by any thread,
  interleaved with the passes of its polling threads.
\<close>

datatype 'cb op =
    Start
  | Shutdown
  | Subscribe 'cb
  | Unsubscribe 'cb
  | Pass nat "'cb calls" "exn + screen"

fun exec :: "'cb op \<Rightarrow> 'cb broadcaster \<Rightarrow> 'cb broadcaster" where
  "exec Start b = start b"
| "exec Shutdown b = shutdown b"
| "exec (Subscribe c) b = subscribe c b"
| "exec (Unsubscribe c) b = unsubscribe c b"
| "exec (Pass tid call scr) b = fst (broadcast_loop_pass tid call scr b)"

definition run :: "'cb op list \<Rightarrow> 'cb broadcaster \<Rightarrow> 'cb broadcaster" where
  "run ops b = fold exec ops b"

text \<open>The callbacks called in a trace, with their arguments, in order.\<close>

fun invoked :: "'cb event list \<Rightarrow> ('cb \<times> string list \<times> int \<times> int) list" where
  "invoked [] = []"
| "invoked (Invoke c lines cx cy # es) = (c, lines, cx, cy) # invoked es"
| "invoked (e # es) = invoked es"

text \<open>
  Lock discipline of a trace, read from left to right with the subscriber lock
  \<open>held\<close> or not at its beginning: every callback is called while the lock is free
  (\<open>calls_outside_lock\<close>), every callback is called while the lock is held
  (\<open>calls_under_lock\<close>), and whether the lock is held at the end.
\<close>

fun calls_outside_lock :: "bool \<Rightarrow> 'cb event list \<Rightarrow> bool" where
  "calls_outside_lock held [] = True"
| "calls_outside_lock held (Acquire # es) = calls_outside_lock True es"
| "calls_outside_lock held (Release # es) = calls_outside_lock False es"
| "calls_outside_lock held (Invoke c lines cx cy # es) = (\<not> held \<and> calls_outside_lock held es)"
| "calls_outside_lock held (Sleep d # es) = calls_outside_lock held es"

fun calls_under_lock :: "bool \<Rightarrow> 'cb event list \<Rightarrow> bool" where
  "calls_under_lock held [] = True"
| "calls_under_lock held (Acquire # es) = calls_under_lock True es"
| "calls_under_lock held (Release # es) = calls_under_lock False es"
| "calls_under_lock held (Invoke c lines cx cy # es) = (held \<and> calls_under_lock held es)"
| "calls_under_lock held (Sleep d # es) = calls_under_lock held es"

fun held_after :: "bool \<Rightarrow> 'cb event list \<Rightarrow> bool" where
  "held_after held [] = held"
| "held_after held (Acquire # es) = held_after True es"
| "held_after held (Release # es) = held_after False es"
| "held_after held (e # es) = held_after held es"

section \<open>PtySession and TmuxSession: sending keys and cleaning up\<close>

text \<open>
  The pty driver's process object (\<^verbatim>\<open>self._pty_process\<close>, from the package ptydriver):
  \<^verbatim>\<open>is_alive()\<close>, \<^verbatim>\<open>send(keys, delay, press_enter)\<close>, \<^verbatim>\<open>send_raw(sequence, delay)\<close> and
  \<^verbatim>\<open>cleanup()\<close>. The session calls none of them inside a \<^verbatim>\<open>try\<close>. The driver's
  \<^verbatim>\<open>cleanup()\<close> terminates the child and releases the terminal; it returns or raises.
\<close>

record 'w pty_driver =
  is_alive :: "'w \<Rightarrow> bool"
  drv_send :: "string \<Rightarrow> real \<Rightarrow> bool \<Rightarrow> 'w \<Rightarrow> 'w"
  drv_send_raw :: "string \<Rightarrow> real \<Rightarrow> 'w \<Rightarrow> 'w"
  drv_cleanup :: "(unit, 'w) act"

text \<open>
  \<^verbatim>\<open>PtySession\<close>: \<open>has_pty_process\<close> says that \<^verbatim>\<open>__init__\<close> got as far as binding
  \<^verbatim>\<open>self._pty_process\<close> (line 524); it is false only in an object whose constructor
  raised, which \<^verbatim>\<open>__del__\<close> still cleans up. Once bound, the attribute holds the driver
  object, which is truthy, so that \<^verbatim>\<open>not self._pty_process\<close> is false.
  \<open>viz_server\<close> is \<^verbatim>\<open>self._viz_server\<close>, \<^verbatim>\<open>None\<close> or the broadcaster.
\<close>

record 'cb pty_session = base_session +
  has_pty_process :: bool
  viz_server :: "'cb broadcaster option"

definition PtySession_send_raw ::
  "'w pty_driver \<Rightarrow> 'cb pty_session \<Rightarrow> string \<Rightarrow> real \<Rightarrow> (unit, 'w) act"
where
  "PtySession_send_raw drv self sequence delay w =
     (if \<not> has_pty_process self then (Inl (AttributeError ''_pty_process''), w)
      else if \<not> is_alive drv w then (Inl (RuntimeError ''Process not running''), w)
      else (Inr (), drv_send_raw drv sequence delay w))"

definition PtySession_send_keys ::
  "'w pty_driver \<Rightarrow> 'cb pty_session \<Rightarrow> string \<Rightarrow> real \<Rightarrow> bool \<Rightarrow> (unit, 'w) act"
where
  "PtySession_send_keys drv self keys delay literal w =
     (if \<not> has_pty_process self then (Inl (AttributeError ''_pty_process''), w)
      else if \<not> is_alive drv w then (Inl (RuntimeError ''Process not running''), w)
      else (Inr (), drv_send drv keys delay (\<not> literal) w))"

text \<open>
  \<^verbatim>\<open>PtySession.cleanup\<close> (session.py, lines 627-641). The broadcaster's \<^verbatim>\<open>shutdown\<close>
  is called inside \<^verbatim>\<open>try ... except Exception: pass\<close>; it has no raising path of its
  own. The driver's \<^verbatim>\<open>cleanup\<close> is the last statement and is called outside any
  \<^verbatim>\<open>try\<close>: what it raises leaves the method, after the flag has been set.
\<close>

definition PtySession_cleanup ::
  "'w pty_driver \<Rightarrow> 'cb pty_session \<Rightarrow> 'w \<Rightarrow> (exn + unit) \<times> 'cb pty_session \<times> 'w"
where
  "PtySession_cleanup drv self w =
     (if is_cleaned_up self then (Inr (), self, w)
      else
        (let s1 = self\<lparr>is_cleaned_up := True\<rparr>;
             s2 = (case viz_server s1 of
                     Some b \<Rightarrow> s1\<lparr>viz_server := Some (shutdown b)\<rparr>
                   | None \<Rightarrow> s1)
         in if has_pty_process s2
            then (case drv_cleanup drv w of (r, w') \<Rightarrow> (r, s2, w'))
            else (Inr (), s2, w)))"

text \<open>
  What \<^verbatim>\<open>TmuxSession\<close> calls: the pexpect process attached to the tmux session
  (\<^verbatim>\<open>send\<close>, and inside the \<^verbatim>\<open>try\<close> of \<^verbatim>\<open>cleanup\<close>: \<^verbatim>\<open>isalive\<close>, \<^verbatim>\<open>terminate(force)\<close>, \<^verbatim>\<open>close\<close>),
  the \<^verbatim>\<open>tmux kill-session\<close> subprocess (inside a \<^verbatim>\<open>try\<close> too), and \<^verbatim>\<open>time.sleep\<close>.
\<close>

record 'w tmux_env =
  px_send :: "string \<Rightarrow> 'w \<Rightarrow> 'w"
  px_isalive :: "(bool, 'w) act"
  px_terminate :: "bool \<Rightarrow> (unit, 'w) act"
  px_close :: "(unit, 'w) act"
  tmux_kill_session :: "string \<Rightarrow> (unit, 'w) act"
  tmux_sleep :: "real \<Rightarrow> 'w \<Rightarrow> 'w"

record tmux_session = base_session +
  session_name :: string
  has_process :: bool

definition TmuxSession_send_raw ::
  "'w tmux_env \<Rightarrow> tmux_session \<Rightarrow> string \<Rightarrow> real \<Rightarrow> (unit, 'w) act"
where
  "TmuxSession_send_raw tm self sequence delay w =
     (if \<not> has_process self then (Inl (AttributeError ''process''), w)
      else py_sleep (tmux_sleep tm) delay (px_send tm sequence w))"

definition TmuxSession_send_keys ::
  "'w tmux_env \<Rightarrow> tmux_session \<Rightarrow> string \<Rightarrow> real \<Rightarrow> bool \<Rightarrow> (unit, 'w) act"
where
  "TmuxSession_send_keys tm self keys delay literal w =
     (if \<not> has_process self then (Inl (AttributeError ''process''), w)
      else
        (let w1 = px_send tm keys w;
             w2 = (if \<not> literal then px_send tm [CHR 0x0D] w1 else w1)
         in py_sleep (tmux_sleep tm) delay w2))"

text \<open>
  The body of the second \<^verbatim>\<open>try\<close> of \<^verbatim>\<open>TmuxSession.cleanup\<close>:
  \<^verbatim>\<open>if self.process.isalive(): self.process.terminate(force=True)\<close>, then
  \<^verbatim>\<open>self.process.close()\<close>.
\<close>

definition close_process :: "'w tmux_env \<Rightarrow> (unit, 'w) act" where
  "close_process tm =
     bind_act (px_isalive tm) (\<lambda>alive.
       bind_act (if alive then px_terminate tm True else return_act ()) (\<lambda>u.
         px_close tm))"

text \<open>\<^verbatim>\<open>TmuxSession.cleanup\<close> (session.py, lines 416-438).\<close>

definition TmuxSession_cleanup ::
  "'w tmux_env \<Rightarrow> tmux_session \<Rightarrow> 'w \<Rightarrow> (exn + unit) \<times> tmux_session \<times> 'w"
where
  "TmuxSession_cleanup tm self w =
     (if is_cleaned_up self then (Inr (), self, w)
      else
        (let s1 = self\<lparr>is_cleaned_up := True\<rparr> in
         case bind_act (try_pass (tmux_kill_session tm (session_name s1))) (\<lambda>u.
                if has_process s1 then try_pass (close_process tm) else return_act ()) w
         of (r, w') \<Rightarrow> (r, s1, w')))"

text \<open>
  \<^verbatim>\<open>NeovimSession\<close> (neovim.py) is a \<^verbatim>\<open>PtySession\<close> that overrides \<^verbatim>\<open>cleanup\<close>. Its
  state is the inherited \<^verbatim>\<open>PtySession\<close> part and \<^verbatim>\<open>self._temp_dir\<close>, bound from line 91
  on, \<^verbatim>\<open>None\<close> or a \<^verbatim>\<open>TemporaryDirectory\<close>. Beyond the pty driver it calls \<^verbatim>\<open>time.sleep\<close>
  and, inside a \<^verbatim>\<open>try\<close>, the temporary directory's \<^verbatim>\<open>cleanup()\<close>; \<^verbatim>\<open>Keys.ESCAPE\<close> and
  \<^verbatim>\<open>Keys.ENTER\<close> are constants of the package ptydriver.
\<close>

record 'cb neovim_session =
  pty_part :: "'cb pty_session"
  has_temp_dir :: bool

record 'w nvim_env =
  nv_driver :: "'w pty_driver"
  nv_sleep :: "real \<Rightarrow> 'w \<Rightarrow> 'w"
  nv_temp_dir_cleanup :: "(unit, 'w) act"
  key_escape :: string
  key_enter :: string

text \<open>
  \<^verbatim>\<open>NeovimSession.ex(cmd, wait)\<close> (neovim.py, lines 272-286): Escape, the command after
  a colon, Enter, each through \<^verbatim>\<open>self.send_raw\<close> with its default delay of 0.15 s.
\<close>

definition NeovimSession_ex :: "'w nvim_env \<Rightarrow> 'cb neovim_session \<Rightarrow> string \<Rightarrow> bool \<Rightarrow> (unit, 'w) act"
where
  "NeovimSession_ex nv self cmd wait =
     bind_act (PtySession_send_raw (nv_driver nv) (pty_part self) (key_escape nv) (3 / 20)) (\<lambda>u.
     bind_act (py_sleep (nv_sleep nv) (1 / 20)) (\<lambda>u.
     bind_act (PtySession_send_raw (nv_driver nv) (pty_part self) (CHR '':'' # cmd) (3 / 20)) (\<lambda>u.
     bind_act (py_sleep (nv_sleep nv) (1 / 20)) (\<lambda>u.
     bind_act (PtySession_send_raw (nv_driver nv) (pty_part self) (key_enter nv) (3 / 20)) (\<lambda>u.
       if wait then py_sleep (nv_sleep nv) (1 / 5) else return_act ())))))"

text \<open>
  The body of the first \<^verbatim>\<open>try\<close> of \<^verbatim>\<open>NeovimSession.cleanup\<close> (neovim.py, lines 231-237):
  \<^verbatim>\<open>if self.process and self.process.isalive()\<close>, where the property \<^verbatim>\<open>process\<close> wraps
  \<^verbatim>\<open>self._pty_process\<close> in a fresh (truthy) object, then Escape twice and \<^verbatim>\<open>:qa!\<close>.
\<close>

definition quit_neovim :: "'w nvim_env \<Rightarrow> 'cb neovim_session \<Rightarrow> (unit, 'w) act" where
  "quit_neovim nv self w =
     (if \<not> has_pty_process (pty_part self) then (Inl (AttributeError ''_pty_process''), w)
      else if is_alive (nv_driver nv) w then
        bind_act (PtySession_send_raw (nv_driver nv) (pty_part self) (key_escape nv) (3 / 20)) (\<lambda>u.
        bind_act (py_sleep (nv_sleep nv) (1 / 20)) (\<lambda>u.
        bind_act (PtySession_send_raw (nv_driver nv) (pty_part self) (key_escape nv) (3 / 20)) (\<lambda>u.
        bind_act (py_sleep (nv_sleep nv) (1 / 20)) (\<lambda>u.
        bind_act (NeovimSession_ex nv self ''qa!'' False) (\<lambda>u.
          py_sleep (nv_sleep nv) (1 / 5)))))) w
      else (Inr (), w))"

text \<open>
  \<^verbatim>\<open>NeovimSession.cleanup\<close> (neovim.py, lines 227-249): the guarded attempt to quit,
  then \<^verbatim>\<open>super().cleanup()\<close> outside any \<^verbatim>\<open>try\<close>, then the guarded cleanup of the
  temporary directory. There is no test of the flag before the first or the last
  step.
\<close>

definition NeovimSession_cleanup ::
  "'w nvim_env \<Rightarrow> 'cb neovim_session \<Rightarrow> 'w \<Rightarrow> (exn + unit) \<times> 'cb neovim_session \<times> 'w"
where
  "NeovimSession_cleanup nv self w =
     (case try_pass (quit_neovim nv self) w of (r0, w1) \<Rightarrow>
        (case PtySession_cleanup (nv_driver nv) (pty_part self) w1 of
           (Inl e, p, w2) \<Rightarrow> (Inl e, self\<lparr>pty_part := p\<rparr>, w2)
         | (Inr u, p, w2) \<Rightarrow>
             (case (if has_temp_dir self then try_pass (nv_temp_dir_cleanup nv)
                    else return_act ()) w2
              of (r, w3) \<Rightarrow> (r, self\<lparr>pty_part := p\<rparr>, w3))))"

text \<open>
  Examples: a pexpect child that is dead but whose pty still takes bytes, a tmux
  session on it, and a pty driver on the same kind of world.
\<close>

record term_world =
  child_alive :: bool
  written :: "string list"

definition dead_world :: term_world where
  "dead_world = \<lparr> child_alive = False, written = [] \<rparr>"

definition live_world :: term_world where
  "live_world = \<lparr> child_alive = True, written = [] \<rparr>"

definition demo_tmux :: "term_world tmux_env" where
  "demo_tmux =
     \<lparr> px_send = (\<lambda>s w. w\<lparr>written := written w @ [s]\<rparr>),
       px_isalive = (\<lambda>w. (Inr (child_alive w), w)),
       px_terminate = (\<lambda>force w. (Inr (), w\<lparr>child_alive := False\<rparr>)),
       px_close = (\<lambda>w. (Inl (OtherError ''close failed''), w)),
       tmux_kill_session = (\<lambda>name w. (Inl (OtherError ''tmux not found''), w)),
       tmux_sleep = (\<lambda>d w. w) \<rparr>"

definition demo_tmux_session :: tmux_session where
  "demo_tmux_session =
     \<lparr> timeout = 5, is_cleaned_up = False, session_name = ''ptytest-demo'', has_process = True \<rparr>"

definition demo_driver :: "term_world pty_driver" where
  "demo_driver =
     \<lparr> is_alive = child_alive,
       drv_send = (\<lambda>keys delay enter w.
          w\<lparr>written := written w @ [if enter then keys @ [CHR 0x0D] else keys]\<rparr>),
       drv_send_raw = (\<lambda>s delay w. w\<lparr>written := written w @ [s]\<rparr>),
       drv_cleanup = (\<lambda>w. (Inr (), w\<lparr>child_alive := False\<rparr>)) \<rparr>"

definition demo_pty_session :: "nat pty_session" where
  "demo_pty_session =
     \<lparr> timeout = 5, is_cleaned_up = False, has_pty_process = True,
       viz_server = Some (start (subscribe 7 (init_broadcaster (1 / 10)))) \<rparr>"

text \<open>
  More examples: a pty driver whose \<^verbatim>\<open>cleanup()\<close> raises, and a Neovim session in a
  world that counts the calls of the temporary directory's \<^verbatim>\<open>cleanup()\<close>.
\<close>

definition failing_driver :: "term_world pty_driver" where
  "failing_driver = demo_driver\<lparr>drv_cleanup := (\<lambda>w. (Inl (OtherError ''terminate failed''), w))\<rparr>"

record nvim_world =
  nvim_alive :: bool
  keys_sent :: "string list"
  temp_dir_cleanups :: nat

definition demo_nvim :: "nvim_world nvim_env" where
  "demo_nvim =
     \<lparr> nv_driver =
         \<lparr> is_alive = nvim_alive,
           drv_send = (\<lambda>keys delay enter w. w\<lparr>keys_sent := keys_sent w @ [keys]\<rparr>),
           drv_send_raw = (\<lambda>s delay w. w\<lparr>keys_sent := keys_sent w @ [s]\<rparr>),
           drv_cleanup = (\<lambda>w. (Inr (), w\<lparr>nvim_alive := False\<rparr>)) \<rparr>,
       nv_sleep = (\<lambda>d w. w),
       nv_temp_dir_cleanup = (\<lambda>w. (Inr (), w\<lparr>temp_dir_cleanups := Suc (temp_dir_cleanups w)\<rparr>)),
       key_escape = [CHR 0x1B],
       key_enter = [CHR 0x0D] \<rparr>"

definition demo_nvim_session :: "nat neovim_session" where
  "demo_nvim_session =
     \<lparr> pty_part = \<lparr> timeout = 5, is_cleaned_up = False, has_pty_process = True,
                    viz_server = None \<rparr>,
       has_temp_dir = True \<rparr>"

definition nvim_start_world :: nvim_world where
  "nvim_start_world = \<lparr> nvim_alive = True, keys_sent = [], temp_dir_cleanups = 0 \<rparr>"

text \<open>Examples for the broadcaster: a screen, and callbacks of which number 1 always raises.\<close>

definition scr :: "string list \<Rightarrow> int \<Rightarrow> int \<Rightarrow> exn + screen" where
  "scr lines cx cy = Inr \<lparr> display = lines, cursor_x = cx, cursor_y = cy \<rparr>"

definition quiet :: "nat calls" where
  "quiet c lines cx cy = None"

definition one_raises :: "nat calls" where
  "one_raises c lines cx cy = (if c = 1 then Some (RuntimeError ''Subscriber error!'') else None)"

definition demo_broadcaster :: "nat broadcaster" where
  "demo_broadcaster = start (subscribe 2 (subscribe 1 (init_broadcaster (1 / 10))))"

section \<open>Substrings\<close>


section \<open>Properties of the polling assertions\<close>

lemma clock_poll_step:
  assumes "collab_ok env"
  shows "clock env w + 1 / 10 \<le> clock env (poll_step env h w)"
proof -
  let ?w1 = "snd (time_time env w)"
  let ?w2 = "snd (get_content env h ?w1)"
  from assms have "clock env w \<le> clock env ?w1"
    by (simp add: collab_ok_def clock_monotone_def)
  moreover from assms have "clock env ?w1 \<le> clock env ?w2"
    by (simp add: collab_ok_def)
  moreover from assms have "clock env ?w2 + 1 / 10 \<le> clock env (time_sleep env (1 / 10) ?w2)"
    by (simp add: collab_ok_def)
  ultimately show ?thesis by (simp add: poll_step_def)
qed

lemma clock_poll_world:
  assumes "collab_ok env"
  shows "clock env w0 \<le> clock env (poll_world env h w0 k)"
proof (induction k)
  case 0
  then show ?case by (simp add: poll_world_def)
next
  case (Suc k)
  have "clock env (poll_world env h w0 k) + 1 / 10 \<le> clock env (poll_world env h w0 (Suc k))"
    using clock_poll_step [OF assms, of "poll_world env h w0 k" h] by (simp add: poll_world_def)
  with Suc show ?case by simp
qed

lemma poll_world_Suc: "poll_world env h w0 (Suc k) = poll_world env h (poll_step env h w0) k"
  by (simp add: poll_world_def funpow_swap1)

lemma poll_content_Suc: "poll_content env h w0 (Suc k) = poll_content env h (poll_step env h w0) k"
  by (simp add: poll_content_def poll_world_Suc)

lemma appears_within_unfold:
  "appears_within env h text t0 tmo w0 \<longleftrightarrow>
     (clock env w0 - t0 < tmo \<and> str_in text (fst (get_content env h (snd (time_time env w0)))))
   \<or> appears_within env h text t0 tmo (poll_step env h w0)"
  (is "?L \<longleftrightarrow> ?A \<or> ?B")
proof
  assume ?L
  then obtain k where k: "clock env (poll_world env h w0 k) - t0 < tmo"
      "str_in text (poll_content env h w0 k)"
    by (auto simp: appears_within_def)
  show "?A \<or> ?B"
  proof (cases k)
    case 0
    with k show ?thesis by (simp add: poll_world_def poll_content_def)
  next
    case (Suc j)
    with k have "?B" unfolding appears_within_def
      by (auto simp: poll_world_Suc poll_content_Suc)
    then show ?thesis ..
  qed
next
  assume "?A \<or> ?B"
  then show ?L
  proof
    assume ?A
    then have "clock env (poll_world env h w0 0) - t0 < tmo \<and> str_in text (poll_content env h w0 0)"
      by (simp add: poll_world_def poll_content_def)
    then show ?L unfolding appears_within_def by blast
  next
    assume ?B
    then obtain k where "clock env (poll_world env h w0 (Suc k)) - t0 < tmo"
      "str_in text (poll_content env h w0 (Suc k))"
      by (auto simp: appears_within_def poll_world_Suc poll_content_Suc)
    then show ?L unfolding appears_within_def by blast
  qed
qed

lemma appears_within_late:
  assumes ok: "collab_ok env" and late: "tmo \<le> clock env w0 - t0"
  shows "\<not> appears_within env h text t0 tmo w0"
proof
  assume "appears_within env h text t0 tmo w0"
  then obtain k where "clock env (poll_world env h w0 k) - t0 < tmo"
    by (auto simp: appears_within_def)
  moreover have "clock env w0 \<le> clock env (poll_world env h w0 k)"
    by (rule clock_poll_world [OF ok])
  ultimately show False using late by simp
qed

lemma verify_loop_unfold:
  "verify_loop env text h t0 tmo w =
     (if clock env w - t0 < tmo then
        (if str_in text (fst (get_content env h (snd (time_time env w))))
         then Some (True, snd (get_content env h (snd (time_time env w))))
         else verify_loop env text h t0 tmo (poll_step env h w))
      else Some (False, snd (time_time env w)))"
  by (subst verify_loop.simps) (simp add: clock_def poll_step_def case_prod_beta)

lemma verify_loop_bounded:
  assumes ok: "collab_ok env"
  shows "t0 + tmo - clock env w \<le> real n / 10 \<Longrightarrow>
     \<exists>b w'. verify_loop env text h t0 tmo w = Some (b, w')
           \<and> (b \<longleftrightarrow> appears_within env h text t0 tmo w)"
proof (induction n arbitrary: w)
  case 0
  then have late: "tmo \<le> clock env w - t0" by simp
  then have "verify_loop env text h t0 tmo w = Some (False, snd (time_time env w))"
    by (subst verify_loop_unfold) simp
  with appears_within_late [OF ok late] show ?case by blast
next
  case (Suc n)
  show ?case
  proof (cases "clock env w - t0 < tmo")
    case False
    then have late: "tmo \<le> clock env w - t0" by simp
    then have "verify_loop env text h t0 tmo w = Some (False, snd (time_time env w))"
      by (subst verify_loop_unfold) simp
    with appears_within_late [OF ok late] show ?thesis by blast
  next
    case True
    let ?c = "fst (get_content env h (snd (time_time env w)))"
    let ?w2 = "snd (get_content env h (snd (time_time env w)))"
    show ?thesis
    proof (cases "str_in text ?c")
      case found: True
      have "verify_loop env text h t0 tmo w = Some (True, ?w2)"
        using True found by (subst verify_loop_unfold) simp
      moreover have "appears_within env h text t0 tmo w"
        using True found by (subst appears_within_unfold) simp
      ultimately show ?thesis by blast
    next
      case nf: False
      have step: "verify_loop env text h t0 tmo w
                 = verify_loop env text h t0 tmo (poll_step env h w)"
        using True nf by (subst verify_loop_unfold) simp
      have "clock env w + 1 / 10 \<le> clock env (poll_step env h w)"
        by (rule clock_poll_step [OF ok])
      with Suc.prems have "t0 + tmo - clock env (poll_step env h w) \<le> real n / 10"
        by (simp add: field_simps)
      from Suc.IH [OF this] obtain b w' where
        r: "verify_loop env text h t0 tmo (poll_step env h w) = Some (b, w')"
        and b: "b \<longleftrightarrow> appears_within env h text t0 tmo (poll_step env h w)"
        by blast
      have "appears_within env h text t0 tmo w
            \<longleftrightarrow> appears_within env h text t0 tmo (poll_step env h w)"
        using nf by (subst appears_within_unfold) simp
      with r b step show ?thesis by auto
    qed
  qed
qed

lemma verify_loop_spec:
  assumes ok: "collab_ok env"
  shows "\<exists>b w'. verify_loop env text h t0 tmo w = Some (b, w')
           \<and> (b \<longleftrightarrow> appears_within env h text t0 tmo w)"
proof -
  obtain n :: nat where "(t0 + tmo - clock env w) * 10 \<le> real n"
    using real_arch_simple by blast
  then have "t0 + tmo - clock env w \<le> real n / 10" by (simp add: field_simps)
  then show ?thesis by (rule verify_loop_bounded [OF ok])
qed

lemma verify_text_appears_spec:
  assumes ok: "collab_ok env"
  shows "\<exists>b w'. verify_text_appears env self text tmo_arg h w = Some (b, w')
     \<and> (b \<longleftrightarrow> appears_within env h text (clock env w) (effective_timeout self tmo_arg)
                 (snd (time_time env w)))"
  using verify_loop_spec [OF ok, of "text" h "clock env w" "effective_timeout self tmo_arg"
      "snd (time_time env w)"]
  by (simp add: verify_text_appears_def clock_def case_prod_beta)

text \<open>The scripted worlds satisfy the assumptions on the clock.\<close>

lemma script_env_ok: "collab_ok script_env"
  by (simp add: collab_ok_def clock_monotone_def clock_def script_env_def)

lemma script_env_simps:
  "time_time script_env w = (w, w)"
  "time_sleep script_env d w = w + d"
  "get_content script_env h w = (if 3 / 20 \<le> w then ''$ echo hi'' else ''$ '', w)"
  "str_of_timeout script_env t = (case t of None \<Rightarrow> ''None'' | Some x \<Rightarrow> ''0.25'')"
  by (simp_all add: script_env_def)

text \<open>
  The method with a content read that may raise. When every read returns, it gives
  the answer of \<open>verify_text_appears\<close>; and whatever it raises, a read has raised.
\<close>

lemma verify_loop_raising_unfold:
  "verify_loop_raising env rd text h t0 tmo w =
     (if clock env w - t0 < tmo then
        (case fst (rd h (snd (time_time env w))) of
           Inl e \<Rightarrow> Some (Inl e, snd (rd h (snd (time_time env w))))
         | Inr content \<Rightarrow>
             if str_in text content
             then Some (Inr True, snd (rd h (snd (time_time env w))))
             else verify_loop_raising env rd text h t0 tmo
                    (time_sleep env (1 / 10) (snd (rd h (snd (time_time env w))))))
      else Some (Inr False, snd (time_time env w)))"
  by (subst verify_loop_raising.simps) (simp add: clock_def case_prod_beta split: sum.splits)

lemma returning_simps:
  "fst (returning g h w) = Inr (fst (g h w))" "snd (returning g h w) = snd (g h w)"
  by (simp_all add: returning_def case_prod_beta)

lemma verify_loop_raising_returning:
  assumes ok: "collab_ok env"
  shows "t0 + tmo - clock env w \<le> real n / 10 \<Longrightarrow>
     verify_loop_raising env (returning (get_content env)) text h t0 tmo w
       = map_option (\<lambda>(b, w'). (Inr b, w')) (verify_loop env text h t0 tmo w)"
proof (induction n arbitrary: w)
  case 0
  then have "\<not> clock env w - t0 < tmo" by simp
  then show ?case
    by (subst verify_loop_raising_unfold, subst verify_loop_unfold) simp
next
  case (Suc n)
  show ?case
  proof (cases "clock env w - t0 < tmo")
    case False
    then show ?thesis
      by (subst verify_loop_raising_unfold, subst verify_loop_unfold) simp
  next
    case True
    show ?thesis
    proof (cases "str_in text (fst (get_content env h (snd (time_time env w))))")
      case found: True
      with True show ?thesis
        by (subst verify_loop_raising_unfold, subst verify_loop_unfold)
           (simp add: returning_simps)
    next
      case nf: False
      have "clock env w + 1 / 10 \<le> clock env (poll_step env h w)"
        by (rule clock_poll_step [OF ok])
      with Suc.prems have "t0 + tmo - clock env (poll_step env h w) \<le> real n / 10"
        by (simp add: field_simps)
      from Suc.IH [OF this] True nf show ?thesis
        by (subst verify_loop_raising_unfold, subst verify_loop_unfold)
           (simp add: returning_simps poll_step_def)
    qed
  qed
qed

lemma verify_text_appears_raising_returning:
  assumes ok: "collab_ok env"
  shows "verify_text_appears_raising env (returning (get_content env)) self text tmo_arg h w
       = map_option (\<lambda>(b, w'). (Inr b, w')) (verify_text_appears env self text tmo_arg h w)"
proof -
  let ?t0 = "fst (time_time env w)" and ?w0 = "snd (time_time env w)"
  let ?tmo = "effective_timeout self tmo_arg"
  obtain n :: nat where "(?t0 + ?tmo - clock env ?w0) * 10 \<le> real n"
    using real_arch_simple by blast
  then have "?t0 + ?tmo - clock env ?w0 \<le> real n / 10" by (simp add: field_simps)
  from verify_loop_raising_returning [OF ok this, of "text" h]
  show ?thesis
    by (simp add: verify_text_appears_raising_def verify_text_appears_def case_prod_beta)
qed

text \<open>
  Two successive polls are at least 100 ms apart.
\<close>

lemma poll_gap:
  assumes "collab_ok env"
  shows "clock env (poll_world env h w0 k) + 1 / 10 \<le> clock env (poll_world env h w0 (Suc k))"
  using clock_poll_step [OF assms, of "poll_world env h w0 k" h] by (simp add: poll_world_def)



lemma verify_loop_raising_raises:
  assumes "verify_loop_raising env rd text h t0 tmo w = Some y"
  shows "\<forall>e w'. y = (Inl e, w') \<longrightarrow> (\<exists>w1. rd h w1 = (Inl e, w'))"
proof (rule verify_loop_raising.raw_induct
    [where P = "\<lambda>env rd sought h t0 tmo w y.
                  \<forall>e w'. y = (Inl e, w') \<longrightarrow> (\<exists>w1. rd h w1 = (Inl e, w'))",
     OF _ assms])
  fix f :: "'a collab \<Rightarrow> (bool \<Rightarrow> (string, 'a) act) \<Rightarrow> string \<Rightarrow> bool \<Rightarrow> real \<Rightarrow> real \<Rightarrow> 'a
              \<Rightarrow> ((exn + bool) \<times> 'a) option"
  fix env rd sought h t0 tmo w y
  assume IH: "\<And>env rd sought h t0 tmo w y. f env rd sought h t0 tmo w = Some y \<Longrightarrow>
                \<forall>e w'. y = (Inl e, w') \<longrightarrow> (\<exists>w1. rd h w1 = (Inl e, w'))"
  assume step: "(case time_time env w of
        (t, w1) \<Rightarrow>
          if t - t0 < tmo
          then case rd h w1 of
                 (Inl e, w2) \<Rightarrow> Some (Inl e, w2)
               | (Inr content, w2) \<Rightarrow>
                   if str_in sought content then Some (Inr True, w2)
                   else f env rd sought h t0 tmo (time_sleep env (1 / 10) w2)
          else Some (Inr False, w1)) = Some y"
  show "\<forall>e w'. y = (Inl e, w') \<longrightarrow> (\<exists>w1. rd h w1 = (Inl e, w'))"
  proof (cases "time_time env w")
    case (Pair t w1)
    show ?thesis
    proof (cases "t - t0 < tmo")
      case False
      with Pair step show ?thesis by auto
    next
      case True
      show ?thesis
      proof (cases "rd h w1")
        case (Pair r w2)
        show ?thesis
        proof (cases r)
          case (Inl e)
          with \<open>time_time env w = (t, w1)\<close> True Pair step show ?thesis by auto
        next
          case (Inr content)
          show ?thesis
          proof (cases "str_in sought content")
            case found: True
            with \<open>time_time env w = (t, w1)\<close> True Pair Inr step show ?thesis by auto
          next
            case nf: False
            with \<open>time_time env w = (t, w1)\<close> True Pair Inr step
            have "f env rd sought h t0 tmo (time_sleep env (1 / 10) w2) = Some y" by simp
            then show ?thesis by (rule IH)
          qed
        qed
      qed
    qed
  qed
qed

lemma verify_text_appears_raising_raises:
  assumes "verify_text_appears_raising env rd self text tmo_arg h w = Some (Inl e, w')"
  shows "\<exists>w1. rd h w1 = (Inl e, w')"
  using assms verify_loop_raising_raises [of env rd "text" h]
  by (auto simp: verify_text_appears_raising_def Let_def split: prod.splits)


text \<open>
  Claim C1, as amended. For every session, text and timeout \<open>T\<close>, when the clock
  does not go back and \<^verbatim>\<open>time.sleep(d)\<close> lasts at least \<open>d\<close>:
  \<^item> if \<^verbatim>\<open>get_content\<close> returns at every call, \<^verbatim>\<open>verify_text_appears(text, timeout=T)\<close>
    returns a boolean, and the boolean is true exactly when some poll made less
    than \<open>T\<close> seconds after the start returns content that contains the text;
  \<^item> with \<^verbatim>\<open>timeout=None\<close> the same holds with the session's own timeout for \<open>T\<close>;
  \<^item> the method sleeps 100 ms between two polls, so that two successive polls are
    at least, not at most, 100 ms apart;
  \<^item> the method has no handler: whatever exception it raises, a \<^verbatim>\<open>get_content\<close> call
    has raised.
\<close>

theorem verify_text_appears_iff:
  assumes "collab_ok env"
  shows "(\<exists>b w'. verify_text_appears_raising env (returning (get_content env)) self text (Some T) h w
                 = Some (Inr b, w')
              \<and> verify_text_appears env self text (Some T) h w = Some (b, w')
              \<and> (b \<longleftrightarrow> appears_within env h text (clock env w) T (snd (time_time env w))))
       \<and> (\<exists>b w'. verify_text_appears_raising env (returning (get_content env)) self text None h w
                 = Some (Inr b, w')
              \<and> (b \<longleftrightarrow> appears_within env h text (clock env w) (timeout self)
                          (snd (time_time env w))))
       \<and> (\<forall>w0 k. clock env (poll_world env h w0 k) + 1 / 10
                   \<le> clock env (poll_world env h w0 (Suc k)))
       \<and> (\<forall>rd e w'. verify_text_appears_raising env rd self text (Some T) h w = Some (Inl e, w')
                   \<longrightarrow> (\<exists>w1. rd h w1 = (Inl e, w')))"
proof -
  from verify_text_appears_spec [OF assms, of self "text" "Some T" h w]
  obtain b w' where v: "verify_text_appears env self text (Some T) h w = Some (b, w')"
    and b: "b \<longleftrightarrow> appears_within env h text (clock env w) T (snd (time_time env w))"
    by (auto simp: effective_timeout_def)
  from v have "verify_text_appears_raising env (returning (get_content env)) self text (Some T) h w
                 = Some (Inr b, w')"
    by (simp add: verify_text_appears_raising_returning [OF assms])
  with v b have first: "\<exists>b w'. verify_text_appears_raising env (returning (get_content env)) self
                   text (Some T) h w = Some (Inr b, w')
              \<and> verify_text_appears env self text (Some T) h w = Some (b, w')
              \<and> (b \<longleftrightarrow> appears_within env h text (clock env w) T (snd (time_time env w)))"
    by blast
  from verify_text_appears_spec [OF assms, of self "text" None h w]
  obtain c w'' where n: "verify_text_appears env self text None h w = Some (c, w'')"
    and c: "c \<longleftrightarrow> appears_within env h text (clock env w) (timeout self) (snd (time_time env w))"
    by (auto simp: effective_timeout_def)
  from n have "verify_text_appears_raising env (returning (get_content env)) self text None h w
                 = Some (Inr c, w'')"
    by (simp add: verify_text_appears_raising_returning [OF assms])
  with c have second: "\<exists>b w'. verify_text_appears_raising env (returning (get_content env)) self
                   text None h w = Some (Inr b, w')
              \<and> (b \<longleftrightarrow> appears_within env h text (clock env w) (timeout self)
                          (snd (time_time env w)))"
    by blast
  have third: "\<forall>w0 k. clock env (poll_world env h w0 k) + 1 / 10
                   \<le> clock env (poll_world env h w0 (Suc k))"
    using poll_gap [OF assms] by blast
  have fourth: "\<forall>rd e w'. verify_text_appears_raising env rd self text (Some T) h w
                   = Some (Inl e, w') \<longrightarrow> (\<exists>w1. rd h w1 = (Inl e, w'))"
    by (intro allI impI) (rule verify_text_appears_raising_raises)
  from first second third fourth show ?thesis by (intro conjI)
qed

text \<open>
  The scripted world, where \<open>hi\<close> is on the screen from 0.15 s on: with a timeout of
  0.1 s the only poll is the one at 0 s and the answer is \<^verbatim>\<open>False\<close>, although the
  session's own timeout is 5 s; with a timeout of 2 s the third poll, at 0.2 s,
  finds the text.
\<close>

lemma script_verify_short:
  "verify_text_appears_raising script_env (returning (get_content script_env)) script_session
     ''hi'' (Some (1 / 10)) True 0 = Some (Inr False, 1 / 10)"
  by (simp add: verify_text_appears_raising_def effective_timeout_def verify_loop_raising_unfold
      clock_def returning_simps script_env_simps)

lemma script_verify_long:
  "verify_text_appears_raising script_env (returning (get_content script_env)) script_session
     ''hi'' (Some 2) True 0 = Some (Inr True, 1 / 5)"
  by (simp add: verify_text_appears_raising_def effective_timeout_def verify_loop_raising_unfold
      clock_def returning_simps script_env_simps)

theorem verify_text_appears_iff_witness:
  "collab_ok script_env
   \<and> verify_text_appears_raising script_env (returning (get_content script_env)) script_session
        ''hi'' (Some (1 / 10)) True 0 = Some (Inr False, 1 / 10)
   \<and> \<not> appears_within script_env True ''hi'' 0 (1 / 10) 0
   \<and> verify_text_appears_raising script_env (returning (get_content script_env)) script_session
        ''hi'' (Some 2) True 0 = Some (Inr True, 1 / 5)
   \<and> appears_within script_env True ''hi'' 0 2 0"
proof -
  have ok: "collab_ok script_env" by (rule script_env_ok)
  note short = verify_text_appears_iff [OF ok, of script_session "''hi''" "1 / 10" True 0,
      THEN conjunct1]
  note long = verify_text_appears_iff [OF ok, of script_session "''hi''" 2 True 0,
      THEN conjunct1]
  from short have "\<not> appears_within script_env True ''hi'' (clock script_env 0) (1 / 10)
      (snd (time_time script_env 0))"
    by (auto simp: script_verify_short)
  then have a: "\<not> appears_within script_env True ''hi'' 0 (1 / 10) 0"
    by (simp add: clock_def script_env_simps)
  from long have "appears_within script_env True ''hi'' (clock script_env 0) 2
      (snd (time_time script_env 0))"
    by (auto simp: script_verify_long)
  then have b: "appears_within script_env True ''hi'' 0 2 0"
    by (simp add: clock_def script_env_simps)
  from ok a b script_verify_short script_verify_long show ?thesis by simp
qed

text \<open>
  Claim C1 as stated fails in two ways. Where a content read takes 0.05 s, the
  second poll is made 0.15 s after the first, more than 100 ms. And where
  \<^verbatim>\<open>get_content\<close> raises, \<^verbatim>\<open>verify_text_appears\<close> raises.
\<close>

lemma slow_env_simps:
  "time_time slow_env w = (w, w)"
  "time_sleep slow_env d w = w + d"
  "get_content slow_env h w = (if 1 / 4 \<le> w then ''$ echo hi'' else ''$ '', w + 1 / 20)"
  by (simp_all add: slow_env_def)

lemma slow_env_ok: "collab_ok slow_env"
  by (simp add: collab_ok_def clock_monotone_def clock_def slow_env_simps)

theorem verify_text_appears_counterexample:
  "collab_ok slow_env
   \<and> verify_text_appears_raising slow_env (returning (get_content slow_env)) script_session
        ''hi'' (Some 2) True 0 = Some (Inr True, 7 / 20)
   \<and> clock slow_env (poll_world slow_env True 0 (Suc 0))
        - clock slow_env (poll_world slow_env True 0 0) = 3 / 20
   \<and> \<not> (3 / 20 \<le> (1 / 10 :: real))
   \<and> verify_text_appears_raising script_env failing_read script_session ''hi'' (Some 2) True 0
       = Some (Inl (OtherError ''capture failed''), 0)"
proof -
  have "verify_text_appears_raising slow_env (returning (get_content slow_env)) script_session
        ''hi'' (Some 2) True 0 = Some (Inr True, 7 / 20)"
    by (simp add: verify_text_appears_raising_def effective_timeout_def
        verify_loop_raising_unfold clock_def returning_simps slow_env_simps)
  moreover have "clock slow_env (poll_world slow_env True 0 (Suc 0))
        - clock slow_env (poll_world slow_env True 0 0) = 3 / 20"
    by (simp add: poll_world_def poll_step_def clock_def slow_env_simps)
  moreover have "verify_text_appears_raising script_env failing_read script_session ''hi''
        (Some 2) True 0 = Some (Inl (OtherError ''capture failed''), 0)"
    by (simp add: verify_text_appears_raising_def effective_timeout_def
        verify_loop_raising_unfold clock_def failing_read_def script_env_simps)
  ultimately show ?thesis using slow_env_ok by simp
qed

text \<open>
  Claim C9. With a timeout that is zero or negative, \<^verbatim>\<open>verify_text_appears\<close> returns
  \<^verbatim>\<open>False\<close> after its two clock reads and never calls \<^verbatim>\<open>get_content\<close>: the answer
  and the final world are the same whatever \<^verbatim>\<open>get_content\<close> is, also one whose content
  always holds the sought text. The clock is assumed not to go back between the two
  reads.
\<close>

theorem verify_text_appears_nonpositive:
  assumes mono: "clock_monotone env" and np: "effective_timeout self tmo_arg \<le> 0"
  shows "verify_text_appears (env\<lparr>get_content := g\<rparr>) self text tmo_arg h w
         = Some (False, snd (time_time env (snd (time_time env w))))"
proof -
  let ?env = "env\<lparr>get_content := g\<rparr>"
  let ?w0 = "snd (time_time env w)"
  from mono have "clock env w \<le> clock env ?w0" by (simp add: clock_monotone_def)
  with np have "\<not> clock ?env ?w0 - clock ?env w < effective_timeout self tmo_arg"
    by (simp add: clock_def)
  then have "verify_loop ?env text h (clock ?env w) (effective_timeout self tmo_arg) ?w0
             = Some (False, snd (time_time ?env ?w0))"
    by (subst verify_loop_unfold) simp
  then show ?thesis
    by (simp add: verify_text_appears_def clock_def case_prod_beta)
qed

lemma script_env_monotone: "clock_monotone script_env"
  using script_env_ok by (simp add: collab_ok_def)

theorem verify_text_appears_nonpositive_witness:
  "clock_monotone script_env \<and> effective_timeout script_session (Some 0) \<le> 0
   \<and> str_in ''hi'' (fst (get_content (script_env\<lparr>get_content := \<lambda>h w. (''hi'', w)\<rparr>) True 0))
   \<and> verify_text_appears (script_env\<lparr>get_content := \<lambda>h w. (''hi'', w)\<rparr>)
        script_session ''hi'' (Some 0) True 0 = Some (False, 0)"
proof -
  have np: "effective_timeout script_session (Some 0) \<le> 0"
    by (simp add: effective_timeout_def)
  from verify_text_appears_nonpositive [OF script_env_monotone np,
      of "\<lambda>h w. (''hi'', w)" "''hi''" True 0]
  have "verify_text_appears (script_env\<lparr>get_content := \<lambda>h w. (''hi'', w)\<rparr>)
        script_session ''hi'' (Some 0) True 0 = Some (False, 0)"
    by (simp add: script_env_simps)
  with script_env_monotone np show ?thesis by simp
qed







section \<open>Properties of sending keys and of cleanup\<close>

text \<open>
  \<^verbatim>\<open>try: ... except Exception: pass\<close> returns, whatever its body does.
\<close>

lemma try_pass_returns: "fst (try_pass m w) = Inr ()"
  by (simp add: try_pass_def split: prod.splits sum.splits)

lemma bind_try_pass: "bind_act (try_pass m) f w = f () (snd (m w))"
  by (simp add: bind_act_def try_pass_def split: prod.splits sum.splits)

lemma TmuxSession_cleanup_returns: "fst (TmuxSession_cleanup tm s w) = Inr ()"
  by (simp add: TmuxSession_cleanup_def bind_try_pass try_pass_returns return_act_def
      case_prod_beta Let_def)

lemma TmuxSession_cleanup_sets_flag: "is_cleaned_up (fst (snd (TmuxSession_cleanup tm s w)))"
  by (simp add: TmuxSession_cleanup_def case_prod_beta)

lemma TmuxSession_cleanup_closed:
  "is_cleaned_up s \<Longrightarrow> TmuxSession_cleanup tm s w = (Inr (), s, w)"
  by (simp add: TmuxSession_cleanup_def)

lemma PtySession_cleanup_sets_flag: "is_cleaned_up (fst (snd (PtySession_cleanup drv p v)))"
  by (simp add: PtySession_cleanup_def Let_def case_prod_beta split: option.splits)

lemma PtySession_cleanup_closed:
  "is_cleaned_up p \<Longrightarrow> PtySession_cleanup drv p v = (Inr (), p, v)"
  by (simp add: PtySession_cleanup_def)

text \<open>
  \<^verbatim>\<open>NeovimSession.cleanup\<close> always reaches \<^verbatim>\<open>super().cleanup()\<close>, which sets the flag;
  once the flag is set, what is left of it is guarded.
\<close>

lemma NeovimSession_cleanup_pty_part:
  "pty_part (fst (snd (NeovimSession_cleanup nv n x)))
     = fst (snd (PtySession_cleanup (nv_driver nv) (pty_part n)
              (snd (try_pass (quit_neovim nv n) x))))"
  by (simp add: NeovimSession_cleanup_def case_prod_beta split: sum.splits)

lemma NeovimSession_cleanup_has_temp_dir:
  "has_temp_dir (fst (snd (NeovimSession_cleanup nv n x))) = has_temp_dir n"
  by (simp add: NeovimSession_cleanup_def case_prod_beta split: sum.splits)

lemma NeovimSession_cleanup_closed:
  assumes "is_cleaned_up (pty_part n)"
  shows "fst (NeovimSession_cleanup nv n x) = Inr ()
       \<and> fst (snd (NeovimSession_cleanup nv n x)) = n"
  using assms
  by (simp add: NeovimSession_cleanup_def PtySession_cleanup_closed try_pass_returns
      return_act_def case_prod_beta)

text \<open>
  Claim C3, as amended.
  \<^item> \<^verbatim>\<open>TmuxSession.cleanup\<close> never raises, whatever its tmux and pexpect calls do.
  \<^item> \<^verbatim>\<open>TmuxSession.cleanup\<close> and \<^verbatim>\<open>PtySession.cleanup\<close> are idempotent: a call on the
    session left by an earlier call (also by one that raised), in whatever world,
    sees the flag and returns at once, without raising, leaving session and world
    as they are.
  \<^item> \<^verbatim>\<open>NeovimSession.cleanup\<close> tests no flag of its own: a call after the first does
    not raise and leaves the session as it is, but it still probes the process and
    cleans the temporary directory before it returns.
  Whether the first \<^verbatim>\<open>PtySession.cleanup\<close> call can raise is left open here.
\<close>

theorem cleanup_idempotent:
  "fst (TmuxSession_cleanup tm s w) = Inr ()
   \<and> TmuxSession_cleanup tm (fst (snd (TmuxSession_cleanup tm s w))) w'
       = (Inr (), fst (snd (TmuxSession_cleanup tm s w)), w')
   \<and> PtySession_cleanup drv (fst (snd (PtySession_cleanup drv p v))) v'
       = (Inr (), fst (snd (PtySession_cleanup drv p v)), v')
   \<and> fst (NeovimSession_cleanup nv (fst (snd (NeovimSession_cleanup nv n x))) x') = Inr ()
   \<and> fst (snd (NeovimSession_cleanup nv (fst (snd (NeovimSession_cleanup nv n x))) x'))
       = fst (snd (NeovimSession_cleanup nv n x))"
proof -
  have "is_cleaned_up (pty_part (fst (snd (NeovimSession_cleanup nv n x))))"
    by (simp add: NeovimSession_cleanup_pty_part PtySession_cleanup_sets_flag)
  from NeovimSession_cleanup_closed [OF this, of nv x']
    TmuxSession_cleanup_returns [of tm s w]
    TmuxSession_cleanup_closed [OF TmuxSession_cleanup_sets_flag, of tm tm s w w']
    PtySession_cleanup_closed [OF PtySession_cleanup_sets_flag, of drv drv p v v']
  show ?thesis by simp
qed

text \<open>
  An example of \<^verbatim>\<open>NeovimSession.cleanup\<close>: the first call asks Neovim to quit, lets
  the driver clean up and removes the temporary directory.
\<close>

lemma demo_nvim_first_cleanup:
  "NeovimSession_cleanup demo_nvim demo_nvim_session nvim_start_world
   = (Inr (),
      demo_nvim_session\<lparr>pty_part := (pty_part demo_nvim_session)\<lparr>is_cleaned_up := True\<rparr>\<rparr>,
      \<lparr> nvim_alive = False,
        keys_sent = [[CHR 0x1B], [CHR 0x1B], [CHR 0x1B], '':qa!'', [CHR 0x0D]],
        temp_dir_cleanups = 1 \<rparr>)"
  by (simp add: NeovimSession_cleanup_def quit_neovim_def NeovimSession_ex_def
      PtySession_cleanup_def PtySession_send_raw_def demo_nvim_def demo_nvim_session_def
      nvim_start_world_def bind_act_def try_pass_def return_act_def py_sleep_def
      sleep_error_def)

text \<open>
  Claim C3 as stated fails in two ways. \<^verbatim>\<open>PtySession.cleanup\<close> calls the driver's
  \<^verbatim>\<open>cleanup()\<close> outside any \<^verbatim>\<open>try\<close>: when that raises, so does \<^verbatim>\<open>PtySession.cleanup\<close>.
  And a second \<^verbatim>\<open>NeovimSession.cleanup\<close> does not return at once: it calls the
  temporary directory's \<^verbatim>\<open>cleanup()\<close> again.
\<close>

theorem cleanup_counterexample:
  "fst (PtySession_cleanup failing_driver demo_pty_session live_world)
     = Inl (OtherError ''terminate failed'')
   \<and> NeovimSession_cleanup demo_nvim demo_nvim_session nvim_start_world
     = (Inr (),
        demo_nvim_session\<lparr>pty_part := (pty_part demo_nvim_session)\<lparr>is_cleaned_up := True\<rparr>\<rparr>,
        \<lparr> nvim_alive = False,
          keys_sent = [[CHR 0x1B], [CHR 0x1B], [CHR 0x1B], '':qa!'', [CHR 0x0D]],
          temp_dir_cleanups = 1 \<rparr>)
   \<and> NeovimSession_cleanup demo_nvim
       (demo_nvim_session\<lparr>pty_part := (pty_part demo_nvim_session)\<lparr>is_cleaned_up := True\<rparr>\<rparr>)
       \<lparr> nvim_alive = False,
         keys_sent = [[CHR 0x1B], [CHR 0x1B], [CHR 0x1B], '':qa!'', [CHR 0x0D]],
         temp_dir_cleanups = 1 \<rparr>
     = (Inr (),
        demo_nvim_session\<lparr>pty_part := (pty_part demo_nvim_session)\<lparr>is_cleaned_up := True\<rparr>\<rparr>,
        \<lparr> nvim_alive = False,
          keys_sent = [[CHR 0x1B], [CHR 0x1B], [CHR 0x1B], '':qa!'', [CHR 0x0D]],
          temp_dir_cleanups = 2 \<rparr>)"
proof -
  have "fst (PtySession_cleanup failing_driver demo_pty_session live_world)
     = Inl (OtherError ''terminate failed'')"
    by (simp add: PtySession_cleanup_def failing_driver_def demo_driver_def
        demo_pty_session_def live_world_def)
  moreover have "NeovimSession_cleanup demo_nvim
       (demo_nvim_session\<lparr>pty_part := (pty_part demo_nvim_session)\<lparr>is_cleaned_up := True\<rparr>\<rparr>)
       \<lparr> nvim_alive = False,
         keys_sent = [[CHR 0x1B], [CHR 0x1B], [CHR 0x1B], '':qa!'', [CHR 0x0D]],
         temp_dir_cleanups = 1 \<rparr>
     = (Inr (),
        demo_nvim_session\<lparr>pty_part := (pty_part demo_nvim_session)\<lparr>is_cleaned_up := True\<rparr>\<rparr>,
        \<lparr> nvim_alive = False,
          keys_sent = [[CHR 0x1B], [CHR 0x1B], [CHR 0x1B], '':qa!'', [CHR 0x0D]],
          temp_dir_cleanups = 2 \<rparr>)"
    by (simp add: NeovimSession_cleanup_def quit_neovim_def PtySession_cleanup_def
        demo_nvim_def demo_nvim_session_def bind_act_def try_pass_def return_act_def)
  ultimately show ?thesis using demo_nvim_first_cleanup by simp
qed

text \<open>
  An example: \<^verbatim>\<open>tmux kill-session\<close> and \<^verbatim>\<open>process.close()\<close> both raise, and the cleanup
  still returns, the child terminated.
\<close>

lemma demo_tmux_cleanup:
  "TmuxSession_cleanup demo_tmux demo_tmux_session live_world
   = (Inr (), demo_tmux_session\<lparr>is_cleaned_up := True\<rparr>, dead_world)"
  by (simp add: TmuxSession_cleanup_def demo_tmux_def demo_tmux_session_def live_world_def
      dead_world_def bind_act_def try_pass_def close_process_def return_act_def)

text \<open>
  Claim C4, as amended. For every \<^verbatim>\<open>PtySession\<close> whose process the driver reports dead,
  \<^verbatim>\<open>send_keys\<close> and \<^verbatim>\<open>send_raw\<close> raise \<^verbatim>\<open>RuntimeError("Process not running")\<close> at once
  and leave the world as it is: nothing is written.
\<close>

theorem PtySession_send_dead:
  assumes "has_pty_process self" and "\<not> is_alive drv w"
  shows "PtySession_send_keys drv self keys delay literal w
           = (Inl (RuntimeError ''Process not running''), w)
       \<and> PtySession_send_raw drv self sequence delay w
           = (Inl (RuntimeError ''Process not running''), w)"
  using assms by (simp add: PtySession_send_keys_def PtySession_send_raw_def)

theorem PtySession_send_dead_witness:
  "has_pty_process demo_pty_session \<and> \<not> is_alive demo_driver dead_world
   \<and> PtySession_send_keys demo_driver demo_pty_session ''ls'' (3 / 20) False dead_world
       = (Inl (RuntimeError ''Process not running''), dead_world)
   \<and> PtySession_send_raw demo_driver demo_pty_session [CHR 0x03] (3 / 20) dead_world
       = (Inl (RuntimeError ''Process not running''), dead_world)
   \<and> written dead_world = []"
proof -
  have h: "has_pty_process demo_pty_session" by (simp add: demo_pty_session_def)
  have d: "\<not> is_alive demo_driver dead_world" by (simp add: demo_driver_def dead_world_def)
  from PtySession_send_dead [OF h d, of "''ls''" "3 / 20" False "[CHR 0x03]"] h d
  show ?thesis by (simp add: dead_world_def)
qed

text \<open>
  Claim C4 as stated, for every session, fails on a \<^verbatim>\<open>TmuxSession\<close>, which makes no
  liveness check: with a dead pexpect child, \<^verbatim>\<open>send_keys("ls")\<close> hands the keys and the
  carriage return to \<^verbatim>\<open>process.send\<close> and returns normally.
\<close>

theorem TmuxSession_send_keys_dead_counterexample:
  "fst (px_isalive demo_tmux dead_world) = Inr False
   \<and> TmuxSession_send_keys demo_tmux demo_tmux_session ''ls'' (3 / 20) False dead_world
       = (Inr (), \<lparr> child_alive = False, written = [''ls'', [CHR 0x0D]] \<rparr>)
   \<and> TmuxSession_send_keys demo_tmux demo_tmux_session ''ls'' (3 / 20) False dead_world
       \<noteq> (Inl (RuntimeError ''Process not running''), dead_world)"
  by (simp add: TmuxSession_send_keys_def demo_tmux_def demo_tmux_session_def dead_world_def
      py_sleep_def sleep_error_def)

section \<open>Properties of the broadcaster\<close>

text \<open>
  The notification loop calls every subscriber once, in order, with the same
  arguments, whatever the calls do.
\<close>

lemma invoked_append: "invoked (xs @ ys) = invoked xs @ invoked ys"
  by (induction xs rule: invoked.induct) simp_all

lemma invoked_notify:
  "invoked (notify call cs lines cx cy) = map (\<lambda>c. (c, lines, cx, cy)) cs"
  by (induction cs) (simp_all split: option.splits)

lemma notify_no_Acquire: "Acquire \<notin> set (notify call cs lines cx cy)"
  by (induction cs) (simp_all split: option.splits)

lemma notify_independent: "notify call cs lines cx cy = notify call' cs lines cx cy"
  by (induction cs) (simp_all split: option.splits)

lemma body_read_ok:
  assumes "get_screen_state s = Inr (lines, cx, cy)"
  shows "broadcast_loop_body call s b =
     (if lines \<noteq> last_content b
      then (b\<lparr>last_content := lines\<rparr>,
            (Acquire # notify call (subscribers b) lines cx cy @ [Release])
              @ (if update_interval b < 0 then [] else [Sleep (update_interval b)]),
            \<not> update_interval b < 0)
      else (b, (if update_interval b < 0 then [] else [Sleep (update_interval b)]),
            \<not> update_interval b < 0))"
  using assms by (simp add: broadcast_loop_body_def sleep_error_def)

lemma body_read_fails:
  "get_screen_state s = Inl e \<Longrightarrow> broadcast_loop_body call s b = (b, [], False)"
  by (simp add: broadcast_loop_body_def)

text \<open>
  Claim C5, as amended. In every pass of the polling loop whose screen read succeeds,
  the subscribers are notified if and only if the freshly read line list differs
  under value equality from the line list broadcast last (\<^verbatim>\<open>self._last_content\<close>); the
  cursor takes no part in the comparison. After the pass the stored line list is the
  one just read.
\<close>

theorem broadcast_on_line_change:
  assumes "tid \<in> set (live b)" and "running b"
    and "get_screen_state s = Inr (lines, cx, cy)"
  shows "invoked (snd (broadcast_loop_pass tid call s b))
           = (if lines \<noteq> last_content b then map (\<lambda>c. (c, lines, cx, cy)) (subscribers b) else [])
       \<and> (Acquire \<in> set (snd (broadcast_loop_pass tid call s b))) = (lines \<noteq> last_content b)
       \<and> last_content (fst (broadcast_loop_pass tid call s b)) = lines"
  using assms
  by (auto simp: broadcast_loop_pass_def body_read_ok invoked_append invoked_notify
      notify_no_Acquire)

lemma demo_broadcaster_simps:
  "live demo_broadcaster = [0]" "running demo_broadcaster"
  "subscribers demo_broadcaster = [1, 2]" "last_content demo_broadcaster = []"
  "update_interval demo_broadcaster = 1 / 10"
  by (simp_all add: demo_broadcaster_def start_def subscribe_def init_broadcaster_def)

lemma scr_state: "get_screen_state (scr lines cx cy) = Inr (lines, cx, cy)"
  by (simp add: get_screen_state_def scr_def)

theorem broadcast_on_line_change_witness:
  "0 \<in> set (live demo_broadcaster) \<and> running demo_broadcaster
   \<and> get_screen_state (scr [''$ ''] 2 0) = Inr ([''$ ''], 2, 0)
   \<and> invoked (snd (broadcast_loop_pass 0 quiet (scr [''$ ''] 2 0) demo_broadcaster))
       = [(1, [''$ ''], 2, 0), (2, [''$ ''], 2, 0)]
   \<and> last_content (fst (broadcast_loop_pass 0 quiet (scr [''$ ''] 2 0) demo_broadcaster)) = [''$ '']"
proof -
  have l: "0 \<in> set (live demo_broadcaster)" and r: "running demo_broadcaster"
    by (simp_all add: demo_broadcaster_simps)
  from broadcast_on_line_change [OF l r scr_state, of quiet "[''$ '']" 2 0] l r
  show ?thesis by (simp add: demo_broadcaster_simps scr_state)
qed

text \<open>
  Claim C5 as stated, with the cursor in the comparison, fails: after the snapshot
  \<open>([''$ ''], 2, 0)\<close> has been broadcast, a pass that reads \<open>([''$ ''], 0, 1)\<close>, the same
  lines with the cursor moved, calls no subscriber.
\<close>

theorem cursor_move_not_broadcast_counterexample:
  "invoked (snd (broadcast_loop_pass 0 quiet (scr [''$ ''] 2 0) demo_broadcaster))
       = [(1, [''$ ''], 2, 0), (2, [''$ ''], 2, 0)]
   \<and> get_screen_state (scr [''$ ''] 0 1) = Inr ([''$ ''], 0, 1)
   \<and> ([''$ ''], 0 :: int, 1 :: int) \<noteq> ([''$ ''], 2, 0)
   \<and> invoked (snd (broadcast_loop_pass 0 quiet (scr [''$ ''] 0 1)
         (fst (broadcast_loop_pass 0 quiet (scr [''$ ''] 2 0) demo_broadcaster)))) = []"
  by (simp add: broadcast_loop_pass_def body_read_ok [OF scr_state] demo_broadcaster_simps
      invoked_append quiet_def scr_state)

text \<open>
  Claim C6. In a pass that notifies, every subscriber is called, in order and with the
  same snapshot, whichever of the callbacks raise: the pass (the broadcaster it
  leaves and its events) is the one in which no callback raises. The flag stays set
  and the thread stays in its loop for the next pass; it leaves only if
  \<^verbatim>\<open>time.sleep\<close> rejects a negative \<^verbatim>\<open>update_interval\<close>, errors or not.
\<close>

theorem subscriber_errors_isolated:
  assumes "tid \<in> set (live b)" and "running b"
    and "get_screen_state s = Inr (lines, cx, cy)" and "lines \<noteq> last_content b"
  shows "invoked (snd (broadcast_loop_pass tid call s b))
           = map (\<lambda>c. (c, lines, cx, cy)) (subscribers b)
       \<and> broadcast_loop_pass tid call s b = broadcast_loop_pass tid (\<lambda>c l x y. None) s b
       \<and> running (fst (broadcast_loop_pass tid call s b))
       \<and> (tid \<in> set (live (fst (broadcast_loop_pass tid call s b)))) = (0 \<le> update_interval b)"
  using assms
  by (auto simp: broadcast_loop_pass_def body_read_ok invoked_append invoked_notify
      notify_independent [of call _ _ _ _ "\<lambda>c l x y. None"])

theorem subscriber_errors_isolated_witness:
  "0 \<in> set (live demo_broadcaster) \<and> running demo_broadcaster
   \<and> get_screen_state (scr [''$ ''] 2 0) = Inr ([''$ ''], 2, 0)
   \<and> [''$ ''] \<noteq> last_content demo_broadcaster
   \<and> one_raises 1 [''$ ''] 2 0 = Some (RuntimeError ''Subscriber error!'')
   \<and> invoked (snd (broadcast_loop_pass 0 one_raises (scr [''$ ''] 2 0) demo_broadcaster))
       = [(1, [''$ ''], 2, 0), (2, [''$ ''], 2, 0)]
   \<and> 0 \<in> set (live (fst (broadcast_loop_pass 0 one_raises (scr [''$ ''] 2 0) demo_broadcaster)))"
proof -
  have l: "0 \<in> set (live demo_broadcaster)" and r: "running demo_broadcaster"
    and c: "[''$ ''] \<noteq> last_content demo_broadcaster"
    by (simp_all add: demo_broadcaster_simps)
  note t = subscriber_errors_isolated [OF l r scr_state c, of one_raises 2 0]
  from t have i: "invoked (snd (broadcast_loop_pass 0 one_raises (scr [''$ ''] 2 0) demo_broadcaster))
       = map (\<lambda>c. (c, [''$ ''], 2, 0)) (subscribers demo_broadcaster)"
    by (rule conjunct1)
  from t have "(0 \<in> set (live (fst (broadcast_loop_pass 0 one_raises (scr [''$ ''] 2 0)
      demo_broadcaster)))) = (0 \<le> update_interval demo_broadcaster)"
    by (elim conjE)
  then have lv: "0 \<in> set (live (fst (broadcast_loop_pass 0 one_raises (scr [''$ ''] 2 0)
      demo_broadcaster)))"
    by (simp add: demo_broadcaster_simps)
  from i lv l r c show ?thesis
    by (simp add: demo_broadcaster_simps scr_state one_raises_def)
qed

text \<open>
  The lock is taken before the first callback and released after the last.
\<close>

lemma calls_under_lock_notify:
  "calls_under_lock True (notify call cs lines cx cy @ es) = calls_under_lock True es"
  by (induction cs) (simp_all split: option.splits)

lemma held_after_notify:
  "held_after h (notify call cs lines cx cy @ es) = held_after h es"
  by (induction cs) (simp_all split: option.splits)

lemma body_lock_discipline:
  "calls_under_lock False (fst (snd (broadcast_loop_body call s b)))
   \<and> \<not> held_after False (fst (snd (broadcast_loop_body call s b)))"
proof (cases "get_screen_state s")
  case (Inl e)
  then show ?thesis by (simp add: body_read_fails)
next
  case (Inr t)
  obtain lines cx cy where "t = (lines, cx, cy)" by (cases t)
  with Inr show ?thesis
    by (simp add: body_read_ok calls_under_lock_notify held_after_notify)
qed

text \<open>
  Claim C7, as amended. In every pass, every subscriber callback is called while the
  polling thread holds the subscriber lock: the lock is taken, the subscriber list
  is walked and each callback called, and only then is the lock released, so that it
  is free again at the end of the pass.
\<close>

theorem callbacks_called_under_lock:
  "calls_under_lock False (snd (broadcast_loop_pass tid call s b))
   \<and> \<not> held_after False (snd (broadcast_loop_pass tid call s b))"
  using body_lock_discipline [of call s b]
  by (simp add: broadcast_loop_pass_def case_prod_beta)

text \<open>
  Claim C7 as stated fails: in the pass below both callbacks are called between
  \<open>Acquire\<close> and \<open>Release\<close>.
\<close>

theorem callbacks_outside_lock_counterexample:
  "snd (broadcast_loop_pass 0 quiet (scr [''$ ''] 2 0) demo_broadcaster)
     = [Acquire, Invoke 1 [''$ ''] 2 0, Invoke 2 [''$ ''] 2 0, Release, Sleep (1 / 10)]
   \<and> \<not> calls_outside_lock False
         (snd (broadcast_loop_pass 0 quiet (scr [''$ ''] 2 0) demo_broadcaster))"
  by (simp add: broadcast_loop_pass_def body_read_ok [OF scr_state] demo_broadcaster_simps
      quiet_def)

text \<open>
  A pass changes nothing but the stored lines and the list of live threads, which
  it can only shorten.
\<close>

lemma body_keeps_fields:
  "running (fst (broadcast_loop_body call s b)) = running b
   \<and> spawned (fst (broadcast_loop_body call s b)) = spawned b
   \<and> live (fst (broadcast_loop_body call s b)) = live b
   \<and> thread (fst (broadcast_loop_body call s b)) = thread b
   \<and> subscribers (fst (broadcast_loop_body call s b)) = subscribers b"
proof (cases "get_screen_state s")
  case (Inl e)
  then show ?thesis by (simp add: body_read_fails)
next
  case (Inr t)
  obtain lines cx cy where "t = (lines, cx, cy)" by (cases t)
  with Inr show ?thesis by (simp add: body_read_ok)
qed

lemma pass_keeps_fields:
  "running (fst (broadcast_loop_pass tid call s b)) = running b
   \<and> spawned (fst (broadcast_loop_pass tid call s b)) = spawned b
   \<and> thread (fst (broadcast_loop_pass tid call s b)) = thread b
   \<and> set (live (fst (broadcast_loop_pass tid call s b))) \<subseteq> set (live b)"
  using body_keeps_fields [of call s b]
  by (auto simp: broadcast_loop_pass_def case_prod_beta)

lemma exec_not_running:
  assumes "op \<noteq> Start" and "\<not> running b"
  shows "\<not> running (exec op b) \<and> spawned (exec op b) = spawned b
         \<and> thread (exec op b) = thread b"
proof (cases op)
  case (Pass tid call s)
  with assms(2) pass_keeps_fields [of tid call s b] show ?thesis by simp
qed (use assms in \<open>simp_all add: shutdown_def subscribe_def unsubscribe_def\<close>)

lemma run_not_running:
  assumes "Start \<notin> set ops" and "\<not> running b"
  shows "\<not> running (run ops b) \<and> spawned (run ops b) = spawned b
         \<and> thread (run ops b) = thread b"
  using assms
proof (induction ops arbitrary: b)
  case Nil
  then show ?case by (simp add: run_def)
next
  case (Cons op ops)
  from Cons.prems have ne: "op \<noteq> Start" and rest: "Start \<notin> set ops" by auto
  from exec_not_running [OF ne Cons.prems(2)]
  have e: "\<not> running (exec op b)" "spawned (exec op b) = spawned b"
    "thread (exec op b) = thread b"
    by simp_all
  from Cons.IH [OF rest e(1)] e(2,3) show ?case by (simp add: run_def)
qed

text \<open>
  Claim C8, as amended. From the shut-down state, no sequence of \<^verbatim>\<open>shutdown()\<close>,
  \<^verbatim>\<open>subscribe()\<close> and \<^verbatim>\<open>unsubscribe()\<close> calls and of passes of old polling threads
  returns the broadcaster to the running state or starts a thread; a \<^verbatim>\<open>start()\<close> call
  does both: it sets the flag again and starts a new polling thread.
\<close>

theorem restart_only_by_start:
  assumes "Start \<notin> set ops"
  shows "\<not> is_running (run ops (shutdown b))
       \<and> spawned (run ops (shutdown b)) = spawned b
       \<and> is_running (start (run ops (shutdown b)))
       \<and> spawned (start (run ops (shutdown b))) = Suc (spawned b)
       \<and> thread (start (run ops (shutdown b))) = Some (spawned b)
       \<and> spawned b \<in> set (live (start (run ops (shutdown b))))"
proof -
  have "\<not> running (shutdown b)" "spawned (shutdown b) = spawned b"
    by (simp_all add: shutdown_def)
  with run_not_running [OF assms, of "shutdown b"]
  have "\<not> running (run ops (shutdown b))" "spawned (run ops (shutdown b)) = spawned b"
    by simp_all
  then show ?thesis by (simp add: is_running_def start_def)
qed

theorem restart_only_by_start_witness:
  "Start \<notin> set [Shutdown, Subscribe 3, Pass 0 quiet (scr [''$ ''] 2 0), Unsubscribe 3]
   \<and> \<not> is_running (run [Shutdown, Subscribe 3, Pass 0 quiet (scr [''$ ''] 2 0), Unsubscribe 3]
         (shutdown demo_broadcaster))
   \<and> is_running (start (run [Shutdown, Subscribe 3, Pass 0 quiet (scr [''$ ''] 2 0), Unsubscribe 3]
         (shutdown demo_broadcaster)))
   \<and> thread (start (run [Shutdown, Subscribe 3, Pass 0 quiet (scr [''$ ''] 2 0), Unsubscribe 3]
         (shutdown demo_broadcaster))) = Some 1"
proof -
  have n: "Start \<notin> set [Shutdown, Subscribe 3, Pass 0 quiet (scr [''$ ''] 2 0), Unsubscribe (3::nat)]"
    by simp
  have s: "spawned demo_broadcaster = 1"
    by (simp add: demo_broadcaster_def start_def subscribe_def init_broadcaster_def)
  from restart_only_by_start [OF n, of demo_broadcaster] n s show ?thesis by simp
qed

text \<open>
  Claim C8 as stated fails: \<^verbatim>\<open>start()\<close> on a broadcaster that was started and shut down
  sets the flag and starts a second thread.
\<close>

theorem restart_after_shutdown_counterexample:
  "\<not> is_running (shutdown (start (init_broadcaster (1 / 10) :: nat broadcaster)))
   \<and> is_running (run [Start] (shutdown (start (init_broadcaster (1 / 10) :: nat broadcaster))))
   \<and> spawned (shutdown (start (init_broadcaster (1 / 10) :: nat broadcaster))) = 1
   \<and> spawned (run [Start] (shutdown (start (init_broadcaster (1 / 10) :: nat broadcaster)))) = 2
   \<and> thread (run [Start] (shutdown (start (init_broadcaster (1 / 10) :: nat broadcaster)))) = Some 1"
  by (simp add: run_def is_running_def start_def shutdown_def init_broadcaster_def)

text \<open>
  Only \<^verbatim>\<open>shutdown()\<close> clears the flag; while it is set, no thread is started.
\<close>

lemma exec_stays_running:
  assumes "op \<noteq> Shutdown" and "running b"
  shows "running (exec op b) \<and> set (live (exec op b)) \<subseteq> set (live b)"
proof (cases op)
  case (Pass tid call s)
  with assms(2) pass_keeps_fields [of tid call s b] show ?thesis by simp
qed (use assms in \<open>simp_all add: start_def subscribe_def unsubscribe_def\<close>)

lemma run_stays_running:
  assumes "Shutdown \<notin> set ops" and "running b"
  shows "running (run ops b) \<and> set (live (run ops b)) \<subseteq> set (live b)"
  using assms
proof (induction ops arbitrary: b)
  case Nil
  then show ?case by (simp add: run_def)
next
  case (Cons op ops)
  from Cons.prems have ne: "op \<noteq> Shutdown" and rest: "Shutdown \<notin> set ops" by auto
  from exec_stays_running [OF ne Cons.prems(2)]
  have e: "running (exec op b)" "set (live (exec op b)) \<subseteq> set (live b)" by simp_all
  from Cons.IH [OF rest e(1)] e(2) show ?case by (auto simp: run_def)
qed

lemma pass_read_fails:
  assumes "tid \<in> set (live b)" and "running b" and "get_screen_state s = Inl e"
  shows "fst (broadcast_loop_pass tid call s b) = b\<lparr>live := removeAll tid (live b)\<rparr>"
  using assms by (simp add: broadcast_loop_pass_def body_read_fails)

text \<open>
  A thread that has left its loop never re-enters it: thread handles are not reused.
\<close>

lemma exec_thread_gone:
  assumes "tid < spawned b" and "tid \<notin> set (live b)"
  shows "tid < spawned (exec op b) \<and> tid \<notin> set (live (exec op b))"
proof (cases op)
  case (Pass t call s)
  with assms pass_keeps_fields [of t call s b] show ?thesis by auto
qed (use assms in \<open>auto simp: start_def shutdown_def subscribe_def unsubscribe_def\<close>)

lemma run_thread_gone:
  assumes "tid < spawned b" and "tid \<notin> set (live b)"
  shows "tid < spawned (run ops b) \<and> tid \<notin> set (live (run ops b))"
  using assms
proof (induction ops arbitrary: b)
  case Nil
  then show ?case by (simp add: run_def)
next
  case (Cons op ops)
  from exec_thread_gone [OF Cons.prems]
  have "tid < spawned (exec op b)" "tid \<notin> set (live (exec op b))" by simp_all
  from Cons.IH [OF this] show ?case by (simp add: run_def)
qed

text \<open>
  Claim C10. When the screen read raises in a pass of a polling thread, the thread
  leaves its loop without notifying anyone, and for good: it is in no later history
  of the broadcaster (\<open>any\<close>). Yet \<^verbatim>\<open>is_running\<close> keeps returning \<^verbatim>\<open>True\<close> through every
  history \<open>ops\<close> of \<^verbatim>\<open>start()\<close>, \<^verbatim>\<open>subscribe()\<close>, \<^verbatim>\<open>unsubscribe()\<close> calls and passes,
  until \<^verbatim>\<open>shutdown()\<close> is called. Thread handles are those \<^verbatim>\<open>start()\<close> gave out (below
  \<open>spawned\<close>).
\<close>

theorem running_flag_outlives_loop:
  assumes "tid \<in> set (live b)" and "tid < spawned b" and "running b"
    and "get_screen_state s = Inl e" and "Shutdown \<notin> set ops"
  shows "snd (broadcast_loop_pass tid call s b) = []
       \<and> tid \<notin> set (live (run any (fst (broadcast_loop_pass tid call s b))))
       \<and> is_running (run ops (fst (broadcast_loop_pass tid call s b)))
       \<and> \<not> is_running (shutdown (run ops (fst (broadcast_loop_pass tid call s b))))"
proof -
  let ?b1 = "fst (broadcast_loop_pass tid call s b)"
  have b1: "?b1 = b\<lparr>live := removeAll tid (live b)\<rparr>"
    by (rule pass_read_fails [OF assms(1,3,4)])
  then have r1: "running ?b1" and l1: "tid \<notin> set (live ?b1)" and s1: "tid < spawned ?b1"
    using assms(2,3) by simp_all
  from run_stays_running [OF assms(5) r1] have "running (run ops ?b1)" by simp
  moreover from run_thread_gone [OF s1 l1] have "tid \<notin> set (live (run any ?b1))" by simp
  moreover have "snd (broadcast_loop_pass tid call s b) = []"
    using assms(1,3,4) by (simp add: broadcast_loop_pass_def body_read_fails)
  ultimately show ?thesis by (simp add: is_running_def shutdown_def)
qed

theorem running_flag_outlives_loop_witness:
  "0 \<in> set (live demo_broadcaster) \<and> 0 < spawned demo_broadcaster \<and> running demo_broadcaster
   \<and> get_screen_state (Inl (OtherError ''screen closed'')) = Inl (OtherError ''screen closed'')
   \<and> Shutdown \<notin> set [Start, Pass 0 quiet (scr [''$ ''] 2 0), Subscribe 3]
   \<and> 0 \<notin> set (live (run [Shutdown, Start, Pass 0 quiet (scr [''$ ''] 2 0)]
        (fst (broadcast_loop_pass 0 quiet (Inl (OtherError ''screen closed'')) demo_broadcaster))))
   \<and> is_running (run [Start, Pass 0 quiet (scr [''$ ''] 2 0), Subscribe 3]
        (fst (broadcast_loop_pass 0 quiet (Inl (OtherError ''screen closed'')) demo_broadcaster)))"
proof -
  have l: "0 \<in> set (live demo_broadcaster)" and r: "running demo_broadcaster"
    by (simp_all add: demo_broadcaster_simps)
  have s: "0 < spawned demo_broadcaster"
    by (simp add: demo_broadcaster_def start_def subscribe_def init_broadcaster_def)
  have g: "get_screen_state (Inl (OtherError ''screen closed'')) = Inl (OtherError ''screen closed'')"
    by (simp add: get_screen_state_def)
  have n: "Shutdown \<notin> set [Start, Pass 0 quiet (scr [''$ ''] 2 0), Subscribe (3::nat)]"
    by simp
  from running_flag_outlives_loop [OF l s r g n,
      of quiet "[Shutdown, Start, Pass 0 quiet (scr [''$ ''] 2 0)]"] l s r g n
  show ?thesis by simp
qed

end
